theory Spec2Isabelle
  imports Main
begin

section \<open>JavaScript strings\<close>

text \<open>
  A JavaScript string is a sequence of UTF-16 code units; \<^verbatim>\<open>length\<close>, the regular
  expressions (none of them has the \<^verbatim>\<open>u\<close> flag) and \<^verbatim>\<open>trim\<close> all work on code units.
  A code unit is given by its value, a number below 65536; no operation of the
  normalizer computes with code units beyond comparing them. \<open>js\<close> embeds an ASCII
  literal.
\<close>

type_synonym codeunit = nat
type_synonym jsstring = "codeunit list"

definition js :: "string \<Rightarrow> jsstring" where
  "js s = map of_char s"

text \<open>\<^verbatim>\<open>\s\<close> and \<^verbatim>\<open>trim\<close>: WhiteSpace and LineTerminator of ECMAScript.\<close>

definition isWhiteSpace :: "codeunit \<Rightarrow> bool" where
  "isWhiteSpace c =
     (c \<in> {0x9, 0xA, 0xB, 0xC, 0xD, 0x20, 0xA0, 0x1680, 0x2028, 0x2029, 0x202F, 0x205F, 0x3000, 0xFEFF}
      \<or> (0x2000 \<le> c \<and> c \<le> 0x200A))"

definition isLineTerminator :: "codeunit \<Rightarrow> bool" where
  "isLineTerminator c = (c \<in> {0xA, 0xD, 0x2028, 0x2029})"

definition isDigit :: "codeunit \<Rightarrow> bool" where
  "isDigit c = (0x30 \<le> c \<and> c \<le> 0x39)"

definition isWordChar :: "codeunit \<Rightarrow> bool" where
  "isWordChar c =
     ((0x41 \<le> c \<and> c \<le> 0x5A) \<or> (0x61 \<le> c \<and> c \<le> 0x7A) \<or> isDigit c \<or> c = 0x5F)"

definition asciiUpper :: "codeunit \<Rightarrow> codeunit" where
  "asciiUpper c = (if 0x61 \<le> c \<and> c \<le> 0x7A then c - 0x20 else c)"

definition asciiLower :: "codeunit \<Rightarrow> codeunit" where
  "asciiLower c = (if 0x41 \<le> c \<and> c \<le> 0x5A then c + 0x20 else c)"

definition trimStart :: "jsstring \<Rightarrow> jsstring" where
  "trimStart s = dropWhile isWhiteSpace s"

definition trimEnd :: "jsstring \<Rightarrow> jsstring" where
  "trimEnd s = rev (dropWhile isWhiteSpace (rev s))"

definition trim :: "jsstring \<Rightarrow> jsstring" where
  "trim s = trimStart (trimEnd s)"

text \<open>\<^verbatim>\<open>parts.join(sep)\<close>.\<close>

fun join :: "jsstring \<Rightarrow> jsstring list \<Rightarrow> jsstring" where
  "join sep [] = []"
| "join sep [x] = x"
| "join sep (x # y # ys) = x @ sep @ join sep (y # ys)"

text \<open>\<^verbatim>\<open>s.includes(sub)\<close>.\<close>

fun includes_str :: "jsstring \<Rightarrow> jsstring \<Rightarrow> bool" where
  "includes_str sub [] = (sub = [])"
| "includes_str sub (c # cs) = (take (length sub) (c # cs) = sub \<or> includes_str sub cs)"


section \<open>Regular expressions\<close>

text \<open>
  The regular expressions of the source are terms of \<open>rx\<close>. A class \<open>LitI c\<close> is the
  letter \<open>c\<close> under the \<^verbatim>\<open>i\<close> flag: without the \<^verbatim>\<open>u\<close> flag an ASCII letter matches its two
  ASCII cases only. \<open>Cap\<close> is the capture group 1 (no expression of the source reads
  another group), \<open>Lazy\<close> is \<^verbatim>\<open>*?\<close>, \<open>Bol\<close> and \<open>Eol\<close> are \<^verbatim>\<open>^\<close> and \<^verbatim>\<open>$\<close> without the
  \<^verbatim>\<open>m\<close> flag, \<open>WordB\<close> is \<^verbatim>\<open>\b\<close> and \<open>Ahead\<close> is \<^verbatim>\<open>(?=...)\<close>.
\<close>

datatype cls = Lit codeunit | LitI codeunit | Range codeunit codeunit | Space | Digit | Dot
  | OneOf "cls list" | NoneOf "cls list"

fun inCls :: "cls \<Rightarrow> codeunit \<Rightarrow> bool" where
  "inCls (Lit a) c = (c = a)"
| "inCls (LitI a) c = (asciiUpper c = asciiUpper a)"
| "inCls (Range a b) c = (a \<le> c \<and> c \<le> b)"
| "inCls Space c = isWhiteSpace c"
| "inCls Digit c = isDigit c"
| "inCls Dot c = (\<not> isLineTerminator c)"
| "inCls (OneOf ks) c = list_ex (\<lambda>k. inCls k c) ks"
| "inCls (NoneOf ks) c = (\<not> list_ex (\<lambda>k. inCls k c) ks)"

datatype rx = Chr cls | Eps | Seq rx rx | Alt rx rx | Star rx | Lazy rx | Cap rx
  | Bol | Eol | WordB | Ahead rx

text \<open>
  A matcher state: the code unit before the position (\<open>None\<close> at index 0), the input
  from the position on, and what group 1 holds.
\<close>

type_synonym mstate = "codeunit option \<times> jsstring \<times> jsstring option"

definition wordBefore :: "codeunit option \<Rightarrow> bool" where
  "wordBefore p = (case p of None \<Rightarrow> False | Some c \<Rightarrow> isWordChar c)"

definition wordAfter :: "jsstring \<Rightarrow> bool" where
  "wordAfter s = (case s of [] \<Rightarrow> False | c # _ \<Rightarrow> isWordChar c)"

text \<open>
  \<open>ms r st\<close> lists the states in which \<open>r\<close> can stop when started in \<open>st\<close>, in the
  order in which the backtracking matcher tries them: its head is the match the engine
  reports. An iteration of a star that consumes nothing is rejected, as in ECMAScript.
\<close>

fun ms :: "rx \<Rightarrow> mstate \<Rightarrow> mstate list" where
  "ms (Chr k) (p, s, g) =
     (case s of [] \<Rightarrow> [] | c # cs \<Rightarrow> if inCls k c then [(Some c, cs, g)] else [])"
| "ms Eps st = [st]"
| "ms (Seq a b) st = concat (map (ms b) (ms a st))"
| "ms (Alt a b) st = ms a st @ ms b st"
| "ms (Star a) (p, s, g) =
     concat (map (\<lambda>st'. if length (fst (snd st')) < length s then ms (Star a) st' else [])
                 (ms a (p, s, g)))
     @ [(p, s, g)]"
| "ms (Lazy a) (p, s, g) =
     (p, s, g)
     # concat (map (\<lambda>st'. if length (fst (snd st')) < length s then ms (Lazy a) st' else [])
                   (ms a (p, s, g)))"
| "ms (Cap a) (p, s, g) =
     map (\<lambda>st'. (fst st', fst (snd st'), Some (take (length s - length (fst (snd st'))) s)))
         (ms a (p, s, g))"
| "ms Bol (p, s, g) = (if p = None then [(p, s, g)] else [])"
| "ms Eol (p, s, g) = (if s = [] then [(p, s, g)] else [])"
| "ms WordB (p, s, g) = (if wordBefore p \<noteq> wordAfter s then [(p, s, g)] else [])"
| "ms (Ahead a) st = (if ms a st = [] then [] else [st])"

definition Plus :: "rx \<Rightarrow> rx" where
  "Plus r = Seq r (Star r)"

definition LazyPlus :: "rx \<Rightarrow> rx" where
  "LazyPlus r = Seq r (Lazy r)"

definition Opt :: "rx \<Rightarrow> rx" where
  "Opt r = Alt r Eps"

fun Seqs :: "rx list \<Rightarrow> rx" where
  "Seqs [] = Eps"
| "Seqs (r # rs) = Seq r (Seqs rs)"

definition Str :: "string \<Rightarrow> rx" where
  "Str s = Seqs (map (\<lambda>c. Chr (Lit (of_char c))) s)"

definition StrI :: "string \<Rightarrow> rx" where
  "StrI s = Seqs (map (\<lambda>c. Chr (LitI (of_char c))) s)"

text \<open>\<^verbatim>\<open>r.test(s)\<close>: is there a match starting at some index.\<close>

fun test_from :: "rx \<Rightarrow> codeunit option \<Rightarrow> jsstring \<Rightarrow> bool" where
  "test_from r p [] = (ms r (p, [], None) \<noteq> [])"
| "test_from r p (c # cs) = (ms r (p, c # cs, None) \<noteq> [] \<or> test_from r (Some c) cs)"

definition test :: "rx \<Rightarrow> jsstring \<Rightarrow> bool" where
  "test r s = test_from r None s"

text \<open>\<^verbatim>\<open>r.exec(s)\<close>: the leftmost match, as what group 1 holds (\<open>None\<close> is \<^verbatim>\<open>undefined\<close>).\<close>

fun exec_from :: "rx \<Rightarrow> codeunit option \<Rightarrow> jsstring \<Rightarrow> jsstring option option" where
  "exec_from r p [] = (case ms r (p, [], None) of [] \<Rightarrow> None | st # _ \<Rightarrow> Some (snd (snd st)))"
| "exec_from r p (c # cs) =
     (case ms r (p, c # cs, None) of [] \<Rightarrow> exec_from r (Some c) cs | st # _ \<Rightarrow> Some (snd (snd st)))"

definition exec :: "rx \<Rightarrow> jsstring \<Rightarrow> jsstring option option" where
  "exec r s = exec_from r None s"

text \<open>
  A replacement string: text and \<^verbatim>\<open>$1\<close>. A group that did not take part expands to the
  empty string.
\<close>

datatype part = Txt string | G1

fun expand :: "part list \<Rightarrow> jsstring option \<Rightarrow> jsstring" where
  "expand [] g = []"
| "expand (Txt t # ps) g = js t @ expand ps g"
| "expand (G1 # ps) g = (case g of None \<Rightarrow> [] | Some x \<Rightarrow> x) @ expand ps g"

text \<open>
  \<^verbatim>\<open>s.replace(r, t)\<close> with the \<^verbatim>\<open>g\<close> flag: every match, left to right, the search resuming
  where the match ended (one code unit further after an empty match).
\<close>

fun replace_from :: "rx \<Rightarrow> part list \<Rightarrow> codeunit option \<Rightarrow> jsstring \<Rightarrow> jsstring" where
  "replace_from r t p [] =
     (case ms r (p, [], None) of [] \<Rightarrow> [] | st # _ \<Rightarrow> expand t (snd (snd st)))"
| "replace_from r t p (c # cs) =
     (case ms r (p, c # cs, None) of
        [] \<Rightarrow> c # replace_from r t (Some c) cs
      | st # _ \<Rightarrow>
          if length (fst (snd st)) < length (c # cs)
          then expand t (snd (snd st)) @ replace_from r t (fst st) (fst (snd st))
          else expand t (snd (snd st)) @ c # replace_from r t (Some c) cs)"

definition replaceAll :: "rx \<Rightarrow> part list \<Rightarrow> jsstring \<Rightarrow> jsstring" where
  "replaceAll r t s = replace_from r t None s"

text \<open>\<^verbatim>\<open>s.replace(r, t)\<close> without the \<^verbatim>\<open>g\<close> flag: the leftmost match only.\<close>

fun replace1_from :: "rx \<Rightarrow> part list \<Rightarrow> codeunit option \<Rightarrow> jsstring \<Rightarrow> jsstring" where
  "replace1_from r t p [] =
     (case ms r (p, [], None) of [] \<Rightarrow> [] | st # _ \<Rightarrow> expand t (snd (snd st)) @ fst (snd st))"
| "replace1_from r t p (c # cs) =
     (case ms r (p, c # cs, None) of
        [] \<Rightarrow> c # replace1_from r t (Some c) cs
      | st # _ \<Rightarrow> expand t (snd (snd st)) @ fst (snd st))"

definition replaceFirst :: "rx \<Rightarrow> part list \<Rightarrow> jsstring \<Rightarrow> jsstring" where
  "replaceFirst r t s = replace1_from r t None s"

text \<open>
  \<^verbatim>\<open>s.match(r)\<close> with the \<^verbatim>\<open>g\<close> flag: the matched substrings, left to right; the empty
  list stands for \<^verbatim>\<open>null\<close>.
\<close>

fun match_from :: "rx \<Rightarrow> codeunit option \<Rightarrow> jsstring \<Rightarrow> jsstring list" where
  "match_from r p [] = (case ms r (p, [], None) of [] \<Rightarrow> [] | st # _ \<Rightarrow> [[]])"
| "match_from r p (c # cs) =
     (case ms r (p, c # cs, None) of
        [] \<Rightarrow> match_from r (Some c) cs
      | st # _ \<Rightarrow>
          if length (fst (snd st)) < length (c # cs)
          then take (length (c # cs) - length (fst (snd st))) (c # cs)
               # match_from r (fst st) (fst (snd st))
          else [] # match_from r (Some c) cs)"

definition matchAll :: "rx \<Rightarrow> jsstring \<Rightarrow> jsstring list" where
  "matchAll r s = match_from r None s"

text \<open>
  \<^verbatim>\<open>s.split(r)\<close> for a separator that has no group and consumes at least one code unit,
  as both separators of the source do.
\<close>

fun split_from :: "rx \<Rightarrow> jsstring \<Rightarrow> codeunit option \<Rightarrow> jsstring \<Rightarrow> jsstring list" where
  "split_from r cur p [] = [cur]"
| "split_from r cur p (c # cs) =
     (case ms r (p, c # cs, None) of
        [] \<Rightarrow> split_from r (cur @ [c]) (Some c) cs
      | st # _ \<Rightarrow>
          if length (fst (snd st)) < length (c # cs)
          then cur # split_from r [] (fst st) (fst (snd st))
          else split_from r (cur @ [c]) (Some c) cs)"

definition split :: "rx \<Rightarrow> jsstring \<Rightarrow> jsstring list" where
  "split r s = split_from r [] None s"


section \<open>The normalizer: shared pieces\<close>

text \<open>
  \<^verbatim>\<open>escapeHtml\<close>: five global replacements, the ampersand first.
\<close>

definition escapeHtml :: "jsstring \<Rightarrow> jsstring" where
  \<open>escapeHtml v =
     replaceAll (Str [CHR 0x27]) [Txt ''&#039;'']
       (replaceAll (Str ''"'') [Txt ''&quot;'']
         (replaceAll (Str ''>'') [Txt ''&gt;'']
           (replaceAll (Str ''<'') [Txt ''&lt;'']
             (replaceAll (Str ''&'') [Txt ''&amp;''] v))))\<close>

text \<open>\<^verbatim>\<open>/<h[1-6][\s>]/i\<close>\<close>

definition hasHtmlHeadingsRx :: rx where
  "hasHtmlHeadingsRx =
     Seqs [Str ''<'', StrI ''h'', Chr (Range 0x31 0x36), Chr (OneOf [Space, Lit 0x3E])]"

definition hasHtmlHeadings :: "jsstring \<Rightarrow> bool" where
  "hasHtmlHeadings raw = test hasHtmlHeadingsRx raw"

text \<open>\<^verbatim>\<open>/^[-*]\s+(.+)$/\<close>\<close>

definition bulletRx :: rx where
  "bulletRx =
     Seqs [Bol, Chr (OneOf [Lit 0x2D, Lit 0x2A]), Plus (Chr Space), Cap (Plus (Chr Dot)), Eol]"

text \<open>\<^verbatim>\<open>/[^.!?]+[.!?]+(?=\s|$)/g\<close>\<close>

definition sentenceRx :: rx where
  "sentenceRx =
     Seqs [Plus (Chr (NoneOf [Lit 0x2E, Lit 0x21, Lit 0x3F])),
           Plus (Chr (OneOf [Lit 0x2E, Lit 0x21, Lit 0x3F])),
           Ahead (Alt (Chr Space) Eol)]"

text \<open>
  Group 1 of a match, where the source reads \<^verbatim>\<open>m[1]\<close> as a string (the group is
  mandatory in every expression read that way; see \<open>bulletRx_group_defined\<close>).
\<close>

definition group1 :: "jsstring option \<Rightarrow> jsstring" where
  "group1 g = (case g of None \<Rightarrow> [] | Some x \<Rightarrow> x)"

text \<open>
  The sentences of a text, \<^verbatim>\<open>text.match(...) || [text]\<close>, and their grouping two by two:
  \<^verbatim>\<open>sentences.slice(i, i + 2).join(' ').trim()\<close> for \<open>i = 0, 2, 4, ...\<close>, the empty chunks
  dropped.
\<close>

definition sentences :: "jsstring \<Rightarrow> jsstring list" where
  "sentences text = (case matchAll sentenceRx text of [] \<Rightarrow> [text] | m # ms' \<Rightarrow> m # ms')"

fun chunks :: "jsstring list \<Rightarrow> jsstring list" where
  "chunks [] = []"
| "chunks [a] = [trim (join (js '' '') [a])]"
| "chunks (a # b # rest) = trim (join (js '' '') [a, b]) # chunks rest"

definition paragraphChunks :: "jsstring list \<Rightarrow> jsstring list" where
  "paragraphChunks ss = filter (\<lambda>chunk. chunk \<noteq> []) (chunks ss)"


section \<open>The document tree and the environment\<close>

text \<open>
  The children of \<^verbatim>\<open>doc.body\<close>. An element carries whether it is in the HTML namespace,
  its local name (lower case for an HTML element), its attributes in order, and its
  children.
\<close>

datatype node =
    Text jsstring
  | Comment jsstring
  | Element bool jsstring "(jsstring \<times> jsstring) list" "node list"

datatype exn = Thrown

text \<open>
  What the normalizer takes from its host: \<^verbatim>\<open>new DOMParser().parseFromString(s, 'text/html')\<close>
  read as the children of the body (\<open>Inl Thrown\<close> when the constructor or the call throws,
  as where there is no \<^verbatim>\<open>DOMParser\<close>), the serialisation \<^verbatim>\<open>doc.body.innerHTML\<close>, and
  \<^verbatim>\<open>String.prototype.toLowerCase\<close>.
\<close>

record env =
  parseFromString :: "jsstring \<Rightarrow> exn + node list"
  innerHTML :: "node list \<Rightarrow> jsstring"
  toLowerCase :: "jsstring \<Rightarrow> jsstring"

fun isElement :: "node \<Rightarrow> bool" where
  "isElement (Element h n a c) = True"
| "isElement _ = False"

fun textContent :: "node \<Rightarrow> jsstring" where
  "textContent (Text t) = t"
| "textContent (Comment t) = []"
| "textContent (Element h n a c) = concat (map textContent c)"

text \<open>\<^verbatim>\<open>el.tagName\<close>: upper case for an HTML element.\<close>

fun tagName :: "node \<Rightarrow> jsstring" where
  "tagName (Element h n a c) = (if h then map asciiUpper n else n)"
| "tagName _ = []"

text \<open>\<^verbatim>\<open>el.setAttribute(name, value)\<close>: the first attribute of that name is overwritten.\<close>

fun setAttribute :: "jsstring \<Rightarrow> jsstring \<Rightarrow> (jsstring \<times> jsstring) list \<Rightarrow> (jsstring \<times> jsstring) list" where
  "setAttribute k v [] = [(k, v)]"
| "setAttribute k v ((k', v') # as) = (if k' = k then (k, v) # as else (k', v') # setAttribute k v as)"

text \<open>\<^verbatim>\<open>/\s+/g\<close> and \<^verbatim>\<open>/^chapter\s*\d+\s*:\s*/i\<close>\<close>

definition wsRunRx :: rx where
  "wsRunRx = Plus (Chr Space)"

definition chapterPrefixRx :: rx where
  "chapterPrefixRx =
     Seqs [Bol, StrI ''chapter'', Star (Chr Space), Plus (Chr Digit), Star (Chr Space),
           Str '':'', Star (Chr Space)]"

definition norm :: "env \<Rightarrow> jsstring \<Rightarrow> jsstring" where
  "norm e s = toLowerCase e (trim (replaceAll wsRunRx [Txt '' ''] s))"

text \<open>
  An optional string used as a condition: \<^verbatim>\<open>undefined\<close> and the empty string are falsy.
\<close>

definition truthy :: "jsstring option \<Rightarrow> bool" where
  "truthy t = (case t of None \<Rightarrow> False | Some s \<Rightarrow> s \<noteq> [])"

text \<open>
  \<^verbatim>\<open>titleCandidates\<close>: the title and the title without its chapter prefix; empty when
  the title is falsy.
\<close>

definition titleCandidates :: "jsstring option \<Rightarrow> jsstring list" where
  "titleCandidates chapterTitle =
     (case chapterTitle of
        None \<Rightarrow> []
      | Some t \<Rightarrow> if t = [] then [] else [t, replaceFirst chapterPrefixRx [] t])"

definition candidateSet :: "env \<Rightarrow> jsstring option \<Rightarrow> jsstring list" where
  "candidateSet e chapterTitle = map (norm e) (titleCandidates chapterTitle)"

definition isTitle :: "env \<Rightarrow> jsstring list \<Rightarrow> node \<Rightarrow> bool" where
  "isTitle e cands n = (norm e (textContent n) \<in> set cands)"

text \<open>
  The loop \<^verbatim>\<open>while (doc.body.firstElementChild) { ... }\<close>: the first element child is
  looked up (the nodes before it are not elements and stay); when its text is a title
  candidate it is removed and the loop goes on, otherwise the loop ends.
\<close>

fun removeLeadingTitles :: "(node \<Rightarrow> bool) \<Rightarrow> node list \<Rightarrow> node list" where
  "removeLeadingTitles m [] = []"
| "removeLeadingTitles m (n # ns) =
     (if isElement n then (if m n then removeLeadingTitles m ns else n # ns)
      else n # removeLeadingTitles m ns)"


section \<open>The HTML-structured path on the tree\<close>

definition h2StyleDom :: jsstring where
  "h2StyleDom = js ''margin-top:24px;margin-bottom:10px;font-size:1.5rem;font-weight:800;border-bottom:1px solid rgba(59,130,246,0.25);padding-bottom:6px;''"

definition h3StyleDom :: jsstring where
  "h3StyleDom = js ''margin-top:18px;margin-bottom:8px;font-size:1.25rem;font-weight:700;border-bottom:1px solid rgba(59,130,246,0.2);padding-bottom:4px;''"

definition pStyleDom :: jsstring where
  "pStyleDom = js ''margin:8px 0;line-height:1.7;''"

definition ulStyleDom :: jsstring where
  "ulStyleDom = js ''margin:12px 0;padding-left:1.25rem;list-style:disc;''"

text \<open>
  \<^verbatim>\<open>querySelectorAll('h1').forEach(el => { if (candidateSet.has(norm(el.textContent))) el.remove() })\<close>:
  every \<^verbatim>\<open>h1\<close> below the body whose text is a title candidate goes, with its subtree.
\<close>

fun removeTitleH1 :: "(node \<Rightarrow> bool) \<Rightarrow> node \<Rightarrow> node list" where
  "removeTitleH1 m (Element h n a c) =
     (if n = js ''h1'' \<and> m (Element h n a c) then []
      else [Element h n a (concat (map (removeTitleH1 m) c))])"
| "removeTitleH1 m x = [x]"

text \<open>\<^verbatim>\<open>querySelectorAll(tag).forEach(el => el.setAttribute('style', v))\<close>\<close>

fun styleAll :: "jsstring \<Rightarrow> jsstring \<Rightarrow> node \<Rightarrow> node" where
  "styleAll tag v (Element h n a c) =
     Element h n (if n = tag then setAttribute (js ''style'') v a else a) (map (styleAll tag v) c)"
| "styleAll tag v x = x"

text \<open>\<^verbatim>\<open>querySelectorAll('br').forEach(br => br.replaceWith(doc.createTextNode('\n')))\<close>\<close>

fun replaceBr :: "node \<Rightarrow> node" where
  "replaceBr (Element h n a c) =
     (if n = js ''br'' then Text [0xA] else Element h n a (map replaceBr c))"
| "replaceBr x = x"

definition blockTags :: "jsstring list" where
  "blockTags = map js [''P'', ''LI'', ''H1'', ''H2'', ''H3'', ''H4'', ''H5'', ''H6'', ''UL'', ''OL'',
                       ''TABLE'', ''SECTION'', ''ARTICLE'', ''DIV'']"

text \<open>A paragraph made by \<^verbatim>\<open>doc.createElement('p')\<close>, styled, around the given children.\<close>

definition newP :: "node list \<Rightarrow> node" where
  "newP c = Element True (js ''p'') [(js ''style'', pStyleDom)] c"

text \<open>
  \<^verbatim>\<open>wrapLooseContent(root)\<close>, as the new list of children of \<open>root\<close>: a text child is
  replaced by the paragraphs of its sentences, two by two; a child whose tag is in
  \<open>blockTags\<close> is walked in turn; any other element child is put into a new paragraph;
  other nodes stay.
\<close>

fun wrapLooseContent :: "node list \<Rightarrow> node list" where
  "wrapLooseContent [] = []"
| "wrapLooseContent (Text t # ns) =
     (let text = trim (replaceAll wsRunRx [Txt '' ''] t) in
      (if text \<noteq> [] then map (\<lambda>chunk. newP [Text chunk]) (paragraphChunks (sentences text)) else [])
      @ wrapLooseContent ns)"
| "wrapLooseContent (Comment t # ns) = Comment t # wrapLooseContent ns"
| "wrapLooseContent (Element h n a c # ns) =
     (if tagName (Element h n a c) \<in> set blockTags
      then Element h n a (wrapLooseContent c)
      else newP [Element h n a c])
     # wrapLooseContent ns"

text \<open>
  The two removals at the head of the \<^verbatim>\<open>try\<close> block: the loop over the leading elements,
  and, when there is a title, the \<^verbatim>\<open>h1\<close> elements anywhere.
\<close>

definition removeTitles :: "env \<Rightarrow> jsstring option \<Rightarrow> node list \<Rightarrow> node list" where
  "removeTitles e chapterTitle body =
     (let cands = candidateSet e chapterTitle;
          b1 = removeLeadingTitles (isTitle e cands) body
      in if truthy chapterTitle then concat (map (removeTitleH1 (isTitle e cands)) b1) else b1)"

text \<open>The body of the \<^verbatim>\<open>try\<close> block, from the parsed body to the tree that is serialised.\<close>

definition domNormalize :: "env \<Rightarrow> jsstring option \<Rightarrow> node list \<Rightarrow> node list" where
  "domNormalize e chapterTitle body =
     (let b2 = removeTitles e chapterTitle body;
          b3 = map (styleAll (js ''h2'') h2StyleDom) b2;
          b4 = map (styleAll (js ''h3'') h3StyleDom) b3;
          b5 = map (styleAll (js ''p'') pStyleDom) b4;
          b6 = map (styleAll (js ''ul'') ulStyleDom) b5;
          b7 = map replaceBr b6
      in wrapLooseContent b7)"

definition domPath :: "env \<Rightarrow> jsstring \<Rightarrow> jsstring option \<Rightarrow> exn + jsstring" where
  "domPath e raw chapterTitle =
     (case parseFromString e raw of
        Inl x \<Rightarrow> Inl x
      | Inr body \<Rightarrow> Inr (innerHTML e (domNormalize e chapterTitle body)))"

text \<open>
  \<^verbatim>\<open>stripDup(html, t)\<close>, the same in both places where it is declared: nothing without a
  title; otherwise the leading title elements of the parsed \<open>html\<close> are removed, and
  \<open>html\<close> is returned as it is when the parser throws.
\<close>

definition stripDup :: "env \<Rightarrow> jsstring \<Rightarrow> jsstring option \<Rightarrow> jsstring" where
  "stripDup e html t =
     (if \<not> truthy t then html
      else case parseFromString e html of
             Inl x \<Rightarrow> html
           | Inr body \<Rightarrow> innerHTML e (removeLeadingTitles (isTitle e (candidateSet e t)) body))"


section \<open>The regex fallback of the HTML-structured path\<close>

definition h2Open :: jsstring where
  \<open>h2Open = js ''<h2 style="margin-top: 24px; margin-bottom: 10px; font-size: 1.5rem; font-weight: 800; border-bottom: 1px solid rgba(59,130,246,0.25); padding-bottom: 6px;">''\<close>

definition h3Open :: jsstring where
  \<open>h3Open = js ''<h3 style="margin-top: 18px; margin-bottom: 8px; font-size: 1.25rem; font-weight: 700; border-bottom: 1px solid rgba(59,130,246,0.2); padding-bottom: 4px;">''\<close>

definition pOpen :: jsstring where
  \<open>pOpen = js ''<p style="margin: 8px 0; line-height: 1.7;">''\<close>

definition ulOpen :: jsstring where
  \<open>ulOpen = js ''<ul style="margin: 12px 0; padding-left: 1.25rem; list-style: disc;">''\<close>

text \<open>\<^verbatim>\<open>/<\s*TAG\b[^>]*>/gi\<close>, \<^verbatim>\<open>/<\s*(TAG[^>]*)>/gi\<close> and \<^verbatim>\<open>/<\s*\/(TAG)\s*>/gi\<close>\<close>

definition tagRx :: "rx \<Rightarrow> rx" where
  "tagRx tag = Seqs [Str ''<'', Star (Chr Space), tag, WordB, Star (Chr (NoneOf [Lit 0x3E])), Str ''>'']"

definition openRx :: "rx \<Rightarrow> rx" where
  "openRx tag = Seqs [Str ''<'', Star (Chr Space), Cap (Seq tag (Star (Chr (NoneOf [Lit 0x3E])))), Str ''>'']"

definition closeRx :: "rx \<Rightarrow> rx" where
  "closeRx tag = Seqs [Str ''<'', Star (Chr Space), Str ''/'', Cap tag, Star (Chr Space), Str ''>'']"

text \<open>\<^verbatim>\<open>h[1-6]\<close> under the \<^verbatim>\<open>i\<close> flag\<close>

definition hN :: rx where
  "hN = Seq (StrI ''h'') (Chr (Range 0x31 0x36))"

text \<open>\<^verbatim>\<open>/\r\n/g\<close> and \<^verbatim>\<open>/<\s*br\s*\/?>/gi\<close>\<close>

definition crlfRx :: rx where
  "crlfRx = Seq (Chr (Lit 0xD)) (Chr (Lit 0xA))"

definition brRx :: rx where
  "brRx = Seqs [Str ''<'', Star (Chr Space), StrI ''br'', Star (Chr Space), Opt (Str ''/''), Str ''>'']"

definition prepared :: "jsstring \<Rightarrow> jsstring" where
  \<open>prepared raw =
     (let s1 = replaceAll crlfRx [Txt [CHR 0x0A]] raw;
          s2 = replaceAll brRx [Txt [CHR 0x0A]] s1;
          s3 = replaceAll (tagRx (StrI ''h2'')) [Txt ''<h2 style="margin-top: 24px; margin-bottom: 10px; font-size: 1.5rem; font-weight: 800; border-bottom: 1px solid rgba(59,130,246,0.25); padding-bottom: 6px;">''] s2;
          s4 = replaceAll (tagRx (StrI ''h3'')) [Txt ''<h3 style="margin-top: 18px; margin-bottom: 8px; font-size: 1.25rem; font-weight: 700; border-bottom: 1px solid rgba(59,130,246,0.2); padding-bottom: 4px;">''] s3;
          s5 = replaceAll (tagRx (StrI ''p'')) [Txt ''<p style="margin: 8px 0; line-height: 1.7;">''] s4;
          s6 = replaceAll (tagRx (StrI ''ul'')) [Txt ''<ul style="margin: 12px 0; padding-left: 1.25rem; list-style: disc;">''] s5;
          s7 = replaceAll (openRx hN) [Txt [CHR 0x0A], Txt ''<'', G1, Txt ''>''] s6;
          s8 = replaceAll (closeRx hN) [Txt ''</'', G1, Txt ''>'', Txt [CHR 0x0A]] s7;
          s9 = replaceAll (openRx (StrI ''p'')) [Txt [CHR 0x0A], Txt ''<'', G1, Txt ''>''] s8;
          s10 = replaceAll (closeRx (StrI ''p'')) [Txt ''</'', G1, Txt ''>'', Txt [CHR 0x0A]] s9;
          s11 = replaceAll (openRx (StrI ''ul'')) [Txt [CHR 0x0A], Txt ''<'', G1, Txt ''>''] s10;
          s12 = replaceAll (closeRx (StrI ''ul'')) [Txt ''</'', G1, Txt ''>'', Txt [CHR 0x0A]] s11;
          s13 = replaceAll (openRx (StrI ''li'')) [Txt [CHR 0x0A], Txt ''<'', G1, Txt ''>''] s12
      in replaceAll (closeRx (StrI ''li'')) [Txt ''</'', G1, Txt ''>'', Txt [CHR 0x0A]] s13)\<close>

text \<open>
  \<^verbatim>\<open>/^<\/?(h[1-6]|ul|li|p)\b/i\<close>, \<^verbatim>\<open>/^<h[1-6]\b/i\<close> and \<^verbatim>\<open>/^<\/h[1-6]>/i\<close>
\<close>

definition keepRx :: rx where
  "keepRx =
     Seqs [Bol, Str ''<'', Opt (Str ''/''),
           Cap (Alt hN (Alt (StrI ''ul'') (Alt (StrI ''li'') (StrI ''p'')))), WordB]"

definition headOpenRx :: rx where
  "headOpenRx = Seqs [Bol, Str ''<'', hN, WordB]"

definition headCloseRx :: rx where
  "headCloseRx = Seqs [Bol, Str ''</'', hN, Str ''>'']"

record fstate =
  out :: "jsstring list"
  inList' :: bool

definition closeList :: "fstate \<Rightarrow> fstate" where
  "closeList st = (if inList' st then st\<lparr>out := out st @ [js ''</ul>''], inList' := False\<rparr> else st)"

definition pLine :: "jsstring \<Rightarrow> jsstring" where
  "pLine t = pOpen @ escapeHtml t @ js ''</p>''"

definition listItem :: "jsstring \<Rightarrow> jsstring" where
  "listItem t = js ''<li>'' @ escapeHtml t @ js ''</li>''"

text \<open>One turn of \<^verbatim>\<open>for (const rawLine of lines)\<close> in the fallback.\<close>

definition fallbackLine :: "fstate \<Rightarrow> jsstring \<Rightarrow> fstate" where
  "fallbackLine st rawLine =
     (let trimmed = trim rawLine in
      if trimmed = [] then closeList st
      else if test keepRx trimmed then
        (let st1 = (if test headOpenRx trimmed \<or> test headCloseRx trimmed then closeList st else st)
         in st1\<lparr>out := out st1 @ [trimmed]\<rparr>)
      else case exec bulletRx trimmed of
        Some bulletMatch \<Rightarrow>
          (let st1 = (if \<not> inList' st then st\<lparr>out := out st @ [ulOpen], inList' := True\<rparr> else st)
           in st1\<lparr>out := out st1 @ [listItem (trim (group1 bulletMatch))]\<rparr>)
      | None \<Rightarrow>
          (let st1 = closeList st; ss = sentences trimmed in
           if length ss \<le> 1 then st1\<lparr>out := out st1 @ [pLine trimmed]\<rparr>
           else st1\<lparr>out := out st1 @ map pLine (paragraphChunks ss)\<rparr>))"

definition fallbackOut :: "jsstring \<Rightarrow> jsstring list" where
  "fallbackOut raw =
     (let lines = split (Str [CHR 0x0A]) (prepared raw)
      in out (closeList (foldl fallbackLine \<lparr>out = [], inList' = False\<rparr> lines)))"

definition fallbackBuilt :: "jsstring \<Rightarrow> jsstring" where
  "fallbackBuilt raw = join [0xA] (fallbackOut raw)"

definition regexFallback :: "env \<Rightarrow> jsstring \<Rightarrow> jsstring option \<Rightarrow> jsstring" where
  "regexFallback e raw chapterTitle = stripDup e (fallbackBuilt raw) chapterTitle"


section \<open>The plain-text path\<close>

text \<open>
  \<^verbatim>\<open>/\*\*(.+?)\*\*/g\<close>, \<^verbatim>\<open>/\r?\n/\<close>, \<^verbatim>\<open>/^\d+(\.\d+)+\s+.+/\<close>, \<^verbatim>\<open>/[.!?]$/\<close> and \<^verbatim>\<open>/^[A-Z]/\<close>
\<close>

definition boldRx :: rx where
  "boldRx = Seqs [Str ''**'', Cap (LazyPlus (Chr Dot)), Str ''**'']"

definition lineBreakRx :: rx where
  "lineBreakRx = Seq (Opt (Chr (Lit 0xD))) (Chr (Lit 0xA))"

definition dottedNumericRx :: rx where
  "dottedNumericRx =
     Seqs [Bol, Plus (Chr Digit), Plus (Cap (Seq (Str ''.'') (Plus (Chr Digit)))),
           Plus (Chr Space), Plus (Chr Dot)]"

definition endPunctRx :: rx where
  "endPunctRx = Seq (Chr (OneOf [Lit 0x2E, Lit 0x21, Lit 0x3F])) Eol"

definition capitalRx :: rx where
  "capitalRx = Seq Bol (Chr (Range 0x41 0x5A))"

record pstate =
  result :: "jsstring list"
  firstHeadingDone :: bool
  inList :: bool

definition closeListIfOpen :: "pstate \<Rightarrow> pstate" where
  "closeListIfOpen st =
     (if inList st then st\<lparr>result := result st @ [js ''</ul>''], inList := False\<rparr> else st)"

definition heading2 :: "jsstring \<Rightarrow> jsstring" where
  "heading2 safe = h2Open @ safe @ js ''</h2>''"

definition heading3 :: "jsstring \<Rightarrow> jsstring" where
  "heading3 safe = h3Open @ safe @ js ''</h3>''"

text \<open>
  The short-capitalised-line test of the source: shorter than 80 code units, no final
  \<^verbatim>\<open>.\<close>, \<^verbatim>\<open>!\<close> or \<^verbatim>\<open>?\<close>, a first letter in \<^verbatim>\<open>A-Z\<close>, no two spaces in a row.
\<close>

definition looksLikeHeading :: "jsstring \<Rightarrow> bool" where
  "looksLikeHeading trimmed =
     (length trimmed > 0 \<and> length trimmed < 80 \<and> \<not> test endPunctRx trimmed
      \<and> test capitalRx trimmed \<and> \<not> includes_str (js ''  '') trimmed)"

text \<open>One turn of \<^verbatim>\<open>for (const rawLine of lines)\<close> in the plain-text path.\<close>

definition plainLine :: "pstate \<Rightarrow> jsstring \<Rightarrow> pstate" where
  "plainLine st rawLine =
     (let line = trimEnd rawLine; trimmed = trim line in
      if length trimmed = 0 then closeListIfOpen st
      else let safe = escapeHtml trimmed in
        if \<not> firstHeadingDone st \<and> length trimmed > 0 then
          st\<lparr>result := result st @ [heading2 safe], firstHeadingDone := True\<rparr>
        else if test dottedNumericRx trimmed then
          (let st1 = closeListIfOpen st in st1\<lparr>result := result st1 @ [heading3 safe]\<rparr>)
        else case exec bulletRx trimmed of
          Some bulletMatch \<Rightarrow>
            (let st1 = (if \<not> inList st then st\<lparr>result := result st @ [js ''<ul>''], inList := True\<rparr> else st)
             in st1\<lparr>result := result st1 @ [listItem (trim (group1 bulletMatch))]\<rparr>)
        | None \<Rightarrow>
            if looksLikeHeading trimmed then
              (let st1 = closeListIfOpen st in st1\<lparr>result := result st1 @ [heading3 safe]\<rparr>)
            else
              (let st1 = closeListIfOpen st in st1\<lparr>result := result st1 @ [pOpen @ safe @ js ''</p>'']\<rparr>))"

definition plainLines :: "jsstring \<Rightarrow> jsstring list" where
  "plainLines raw = split lineBreakRx (replaceAll boldRx [G1] (trim raw))"

definition plainInit :: pstate where
  "plainInit = \<lparr>result = [], firstHeadingDone = False, inList = False\<rparr>"

text \<open>The loop over the lines and the \<^verbatim>\<open>closeListIfOpen()\<close> after it.\<close>

definition plainRun :: "pstate \<Rightarrow> jsstring list \<Rightarrow> jsstring list" where
  "plainRun st lines = result (closeListIfOpen (foldl plainLine st lines))"

definition plainResult :: "jsstring \<Rightarrow> jsstring list" where
  "plainResult raw = plainRun plainInit (plainLines raw)"

definition plainBuilt :: "jsstring \<Rightarrow> jsstring" where
  "plainBuilt raw = join [0xA] (plainResult raw)"

definition plainPath :: "env \<Rightarrow> jsstring \<Rightarrow> jsstring option \<Rightarrow> jsstring" where
  "plainPath e raw chapterTitle = stripDup e (plainBuilt raw) chapterTitle"


section \<open>The normalizer\<close>

text \<open>
  \<^verbatim>\<open>formatChapterContent(raw, chapterTitle)\<close>. \<open>None\<close> is \<^verbatim>\<open>undefined\<close>; a value \<open>Inl\<close>
  would be an exception leaving the function.
\<close>

definition htmlStructuredPath :: "env \<Rightarrow> jsstring \<Rightarrow> jsstring option \<Rightarrow> exn + jsstring" where
  "htmlStructuredPath e raw chapterTitle =
     (case domPath e raw chapterTitle of
        Inr html \<Rightarrow> Inr html
      | Inl x \<Rightarrow> Inr (regexFallback e raw chapterTitle))"

definition formatChapterContent :: "env \<Rightarrow> jsstring option \<Rightarrow> jsstring option \<Rightarrow> exn + jsstring" where
  "formatChapterContent e raw chapterTitle =
     (case raw of
        None \<Rightarrow> Inr []
      | Some r \<Rightarrow>
          if r = [] then Inr []
          else if hasHtmlHeadings r then htmlStructuredPath e r chapterTitle
          else Inr (plainPath e r chapterTitle))"


section \<open>Notions of the specification\<close>

text \<open>
  An opening heading tag \<^verbatim>\<open><h1>\<close> to \<^verbatim>\<open><h6>\<close> in either case: \<^verbatim>\<open><\<close>, the letter, a digit
  from 1 to 6, and then the end of the tag name, a white space or \<^verbatim>\<open>>\<close>.
\<close>

definition headingTagAt :: "jsstring \<Rightarrow> bool" where
  "headingTagAt s =
     (\<exists>h d c post. s = [0x3C, h, d, c] @ post \<and> (h = 0x68 \<or> h = 0x48) \<and> 0x31 \<le> d \<and> d \<le> 0x36
        \<and> (isWhiteSpace c \<or> c = 0x3E))"

definition containsHeadingTag :: "jsstring \<Rightarrow> bool" where
  "containsHeadingTag raw = (\<exists>pre s. raw = pre @ s \<and> headingTagAt s)"

definition startsWith :: "jsstring \<Rightarrow> jsstring \<Rightarrow> bool" where
  "startsWith pre l = (take (length pre) l = pre)"

text \<open>
  A line that is one block element: the opening tag \<open>opn\<close>, a content without \<^verbatim>\<open><\<close> and
  \<^verbatim>\<open>>\<close>, the closing tag \<open>cls\<close>.
\<close>

definition wrappedBy :: "jsstring \<Rightarrow> jsstring \<Rightarrow> jsstring \<Rightarrow> bool" where
  "wrappedBy opn cls l =
     (length opn + length cls \<le> length l \<and> take (length opn) l = opn
      \<and> drop (length l - length cls) l = cls
      \<and> list_all (\<lambda>c. c \<noteq> 0x3C \<and> c \<noteq> 0x3E) (take (length l - length opn - length cls) (drop (length opn) l)))"

definition wrappedLine :: "jsstring \<Rightarrow> bool" where
  "wrappedLine l =
     (wrappedBy h2Open (js ''</h2>'') l \<or> wrappedBy h3Open (js ''</h3>'') l
      \<or> wrappedBy pOpen (js ''</p>'') l \<or> wrappedBy (js ''<li>'') (js ''</li>'') l)"


text \<open>
  White space collapsed: every maximal run of white space becomes one space.
\<close>

function collapse :: "jsstring \<Rightarrow> jsstring" where
  "collapse [] = []"
| "collapse (c # cs) =
     (if isWhiteSpace c then 0x20 # collapse (dropWhile isWhiteSpace cs) else c # collapse cs)"
  by pat_completeness auto
termination
  by (relation "measure length") (auto simp: length_dropWhile_le less_Suc_eq_le)

text \<open>
  \<open>chapterPrefixed title core\<close>: the title is the word \<^verbatim>\<open>chapter\<close> in any case, white space
  or none, digits, white space or none, a colon, white space or none, and then \<open>core\<close>,
  which does not begin with white space.
\<close>

definition chapterPrefixed :: "jsstring \<Rightarrow> jsstring \<Rightarrow> bool" where
  "chapterPrefixed title core =
     (\<exists>w ws1 ds ws2 ws3.
        title = w @ ws1 @ ds @ ws2 @ [0x3A] @ ws3 @ core
        \<and> map asciiUpper w = map asciiUpper (js ''chapter'')
        \<and> list_all isWhiteSpace ws1 \<and> ds \<noteq> [] \<and> list_all isDigit ds
        \<and> list_all isWhiteSpace ws2 \<and> list_all isWhiteSpace ws3
        \<and> (case core of [] \<Rightarrow> True | c # _ \<Rightarrow> \<not> isWhiteSpace c))"

text \<open>A subtree that holds an \<^verbatim>\<open>h1\<close> element, itself or below, that \<open>m\<close> takes for a title.\<close>

fun containsTitleH1 :: "(node \<Rightarrow> bool) \<Rightarrow> node \<Rightarrow> bool" where
  "containsTitleH1 m (Element h n a c) =
     ((n = js ''h1'' \<and> m (Element h n a c)) \<or> list_ex (containsTitleH1 m) c)"
| "containsTitleH1 m x = False"

text \<open>
  The lines of the prepared input that the regex fallback keeps as they are: not
  blank, and starting with a recognised tag.
\<close>

definition keptLines :: "jsstring \<Rightarrow> jsstring list" where
  "keptLines raw =
     filter (\<lambda>x. x \<noteq> [] \<and> test keepRx x) (map trim (split (Str [CHR 0x0A]) (prepared raw)))"



definition isTerminator :: "codeunit \<Rightarrow> bool" where
  "isTerminator c = (c = 0x2E \<or> c = 0x21 \<or> c = 0x3F)"

text \<open>
  \<open>styledFor tag v\<close>: every element \<open>tag\<close> of a subtree has the style \<open>v\<close>; \<open>styled\<close>:
  every \<^verbatim>\<open>h2\<close>, \<^verbatim>\<open>h3\<close>, \<^verbatim>\<open>p\<close> and \<^verbatim>\<open>ul\<close> of a subtree has the style the normalizer
  gives it in the tree.
\<close>

fun styledFor :: "jsstring \<Rightarrow> jsstring \<Rightarrow> node \<Rightarrow> bool" where
  "styledFor tag v (Element h n a c) =
     ((n = tag \<longrightarrow> map_of a (js ''style'') = Some v) \<and> list_all (styledFor tag v) c)"
| "styledFor tag v x = True"

definition styled :: "node \<Rightarrow> bool" where
  "styled n =
     (styledFor (js ''h2'') h2StyleDom n \<and> styledFor (js ''h3'') h3StyleDom n
      \<and> styledFor (js ''p'') pStyleDom n \<and> styledFor (js ''ul'') ulStyleDom n)"


section \<open>Hosts for the examples\<close>

text \<open>
  The serialisation of the HTML standard, for text, comments and elements that are not
  raw-text elements.
\<close>

definition escapeText :: "jsstring \<Rightarrow> jsstring" where
  "escapeText t =
     concat (map (\<lambda>c. if c = 0x26 then js ''&amp;'' else if c = 0xA0 then js ''&nbsp;''
                        else if c = 0x3C then js ''&lt;'' else if c = 0x3E then js ''&gt;'' else [c]) t)"

definition escapeAttr :: "jsstring \<Rightarrow> jsstring" where
  "escapeAttr t =
     concat (map (\<lambda>c. if c = 0x26 then js ''&amp;'' else if c = 0xA0 then js ''&nbsp;''
                        else if c = 0x22 then js ''&quot;''
                        else if c = 0x3C then js ''&lt;'' else if c = 0x3E then js ''&gt;'' else [c]) t)"

definition voidTags :: "jsstring list" where
  "voidTags = map js [''area'', ''base'', ''br'', ''col'', ''embed'', ''hr'', ''img'', ''input'',
                      ''link'', ''meta'', ''source'', ''track'', ''wbr'']"

fun serialize :: "node \<Rightarrow> jsstring" where
  "serialize (Text t) = escapeText t"
| "serialize (Comment t) = js ''<!--'' @ t @ js ''-->''"
| "serialize (Element h n a c) =
     [0x3C] @ n @ concat (map (\<lambda>kv. [0x20] @ fst kv @ [0x3D, 0x22] @ escapeAttr (snd kv) @ [0x22]) a)
     @ [0x3E]
     @ (if n \<in> set voidTags then [] else concat (map serialize c) @ [0x3C, 0x2F] @ n @ [0x3E])"

text \<open>
  A host that parses the documents of a table as given there, and throws on any
  other; its \<^verbatim>\<open>toLowerCase\<close> is that of ASCII. With an empty table it is a host without
  \<^verbatim>\<open>DOMParser\<close>.
\<close>

definition hostWith :: "(jsstring \<times> node list) list \<Rightarrow> env" where
  "hostWith docs =
     \<lparr>parseFromString = (\<lambda>s. case map_of docs s of None \<Rightarrow> Inl Thrown | Some b \<Rightarrow> Inr b),
      innerHTML = (\<lambda>b. concat (map serialize b)),
      toLowerCase = map asciiLower\<rparr>"

definition noDom :: env where
  "noDom = hostWith []"

text \<open>
  Two documents as a browser parses them: the HTML that the plain-text path builds from
  the lines \<^verbatim>\<open>Foo\<close>, \<^verbatim>\<open>Foo\<close> and \<^verbatim>\<open>bar.\<close>, and the input \<^verbatim>\<open><h2>Chapter 1: Foo</h2><p>body</p>\<close>.
\<close>

definition fooBuilt :: jsstring where
  "fooBuilt = heading2 (js ''Foo'') @ [0xA] @ heading3 (js ''Foo'') @ [0xA] @ pLine (js ''bar.'')"

definition fooBody :: "node list" where
  "fooBody =
     [Element True (js ''h2'') [(js ''style'', js ''margin-top: 24px; margin-bottom: 10px; font-size: 1.5rem; font-weight: 800; border-bottom: 1px solid rgba(59,130,246,0.25); padding-bottom: 6px;'')] [Text (js ''Foo'')],
      Text [0xA],
      Element True (js ''h3'') [(js ''style'', js ''margin-top: 18px; margin-bottom: 8px; font-size: 1.25rem; font-weight: 700; border-bottom: 1px solid rgba(59,130,246,0.2); padding-bottom: 4px;'')] [Text (js ''Foo'')],
      Text [0xA],
      Element True (js ''p'') [(js ''style'', js ''margin: 8px 0; line-height: 1.7;'')] [Text (js ''bar.'')]]"

definition chapterRaw :: jsstring where
  "chapterRaw = js ''<h2>Chapter 1: Foo</h2><p>body</p>''"

definition chapterBody :: "node list" where
  "chapterBody =
     [Element True (js ''h2'') [] [Text (js ''Chapter 1: Foo'')],
      Element True (js ''p'') [] [Text (js ''body'')]]"

text \<open>
  The same chapter with another case and other white space in the heading, and a
  title whose prefix is spaced differently; and a body whose title \<^verbatim>\<open>h1\<close> comes after a
  paragraph.
\<close>

definition chapterRaw2 :: jsstring where
  "chapterRaw2 = js ''<h3>  FOO   bar </h3><p>body</p>''"

definition chapterBody2 :: "node list" where
  "chapterBody2 =
     [Element True (js ''h3'') [] [Text (js ''  FOO   bar '')],
      Element True (js ''p'') [] [Text (js ''body'')]]"

definition lateTitleBody :: "node list" where
  "lateTitleBody =
     [Element True (js ''p'') [] [Text (js ''x'')],
      Element True (js ''div'') [] [Element True (js ''h1'') [] [Text (js ''Foo'')]]]"

text \<open>
  An input with a heading tag, a bullet and a line of text, for the regex fallback.
\<close>

definition mixedRaw :: jsstring where
  "mixedRaw = js ''<h1>T</h1>\<newline>- a\<newline>x y''"

text \<open>
  A host in which the empty string has an empty body that serialises to the empty
  string, or in which the parser throws.
\<close>

definition emptyDocOk :: "env \<Rightarrow> bool" where
  "emptyDocOk e =
     (case parseFromString e [] of Inl x \<Rightarrow> True | Inr b \<Rightarrow> b = [] \<and> innerHTML e [] = [])"



section \<open>Evaluation\<close>

lemmas cls_eval = isWhiteSpace_def isLineTerminator_def isDigit_def isWordChar_def asciiUpper_def
  asciiLower_def wordBefore_def wordAfter_def

lemmas rx_eval = Plus_def LazyPlus_def Opt_def Str_def StrI_def test_def exec_def replaceAll_def
  replaceFirst_def matchAll_def split_def js_def

lemmas str_eval = trim_def trimStart_def trimEnd_def group1_def

lemmas fallback_eval = prepared_def tagRx_def openRx_def closeRx_def hN_def crlfRx_def brRx_def
  keepRx_def headOpenRx_def headCloseRx_def closeList_def fallbackLine_def fallbackOut_def
  bulletRx_def sentenceRx_def sentences_def paragraphChunks_def

lemmas plain_eval = boldRx_def lineBreakRx_def dottedNumericRx_def endPunctRx_def capitalRx_def
  closeListIfOpen_def looksLikeHeading_def plainLine_def plainLines_def plainInit_def plainRun_def
  plainResult_def bulletRx_def

section \<open>The mode selection\<close>

lemma asciiUpper_h: "asciiUpper c = 0x48 \<longleftrightarrow> c = 0x48 \<or> c = 0x68"
  unfolding asciiUpper_def by auto

lemma ms_heading: "ms hasHtmlHeadingsRx (p, s, None) \<noteq> [] \<longleftrightarrow> headingTagAt s"
proof (cases s)
  case Nil
  then show ?thesis by (simp add: hasHtmlHeadingsRx_def Str_def StrI_def headingTagAt_def)
next
  case s1: (Cons a s1)
  show ?thesis
  proof (cases s1)
    case Nil
    with s1 show ?thesis by (simp add: hasHtmlHeadingsRx_def Str_def StrI_def headingTagAt_def)
  next
    case s2: (Cons b s2)
    show ?thesis
    proof (cases s2)
      case Nil
      with s1 s2 show ?thesis by (simp add: hasHtmlHeadingsRx_def Str_def StrI_def headingTagAt_def)
    next
      case s3: (Cons c s3)
      show ?thesis
      proof (cases s3)
        case Nil
        with s1 s2 s3 show ?thesis
          by (simp add: hasHtmlHeadingsRx_def Str_def StrI_def headingTagAt_def)
      next
        case (Cons d s4)
        with s1 s2 s3 show ?thesis
          by (auto simp add: hasHtmlHeadingsRx_def Str_def StrI_def headingTagAt_def asciiUpper_h
                asciiUpper_def)
      qed
    qed
  qed
qed

lemma containsHeadingTag_Cons:
  "containsHeadingTag (c # cs) \<longleftrightarrow> headingTagAt (c # cs) \<or> containsHeadingTag cs"
  unfolding containsHeadingTag_def
  apply (rule iffI)
   apply (metis append_Nil append_eq_Cons_conv)
  apply (metis append_Cons append_Nil)
  done

lemma test_from_heading: "test_from hasHtmlHeadingsRx p s \<longleftrightarrow> containsHeadingTag s"
proof (induction s arbitrary: p)
  case Nil
  show ?case by (simp add: ms_heading containsHeadingTag_def)
next
  case (Cons c cs)
  then show ?case by (simp add: ms_heading containsHeadingTag_Cons)
qed

lemma hasHtmlHeadings_iff: "hasHtmlHeadings raw \<longleftrightarrow> containsHeadingTag raw"
  by (simp add: hasHtmlHeadings_def test_def test_from_heading)

text \<open>
  C7: a non-empty input takes the HTML-structured path when it contains an opening
  heading tag \<^verbatim>\<open><h1>\<close> to \<^verbatim>\<open><h6>\<close> in either case, and the plain-text path when it does
  not; there is no third way through the normalizer.
\<close>

theorem path_selection:
  assumes "raw \<noteq> []"
  shows "(containsHeadingTag raw \<longrightarrow>
            formatChapterContent e (Some raw) t = htmlStructuredPath e raw t)
       \<and> (\<not> containsHeadingTag raw \<longrightarrow>
            formatChapterContent e (Some raw) t = Inr (plainPath e raw t))"
  using assms by (simp add: formatChapterContent_def hasHtmlHeadings_iff)

theorem path_selection_witness:
  "formatChapterContent noDom (Some (js ''<H1>T</h1>'')) None
     = htmlStructuredPath noDom (js ''<H1>T</h1>'') None
   \<and> formatChapterContent noDom (Some (js ''Title'')) None
     = Inr (plainPath noDom (js ''Title'') None)"
proof -
  have 1: "containsHeadingTag (js ''<H1>T</h1>'')"
    unfolding hasHtmlHeadings_iff [symmetric]
    by (simp add: hasHtmlHeadings_def hasHtmlHeadingsRx_def rx_eval cls_eval)
  have 2: "\<not> containsHeadingTag (js ''Title'')"
    unfolding hasHtmlHeadings_iff [symmetric]
    by (simp add: hasHtmlHeadings_def hasHtmlHeadingsRx_def rx_eval cls_eval)
  have 3: "js ''<H1>T</h1>'' \<noteq> []" and 4: "js ''Title'' \<noteq> []"
    by (simp_all add: js_def)
  show ?thesis
    using path_selection [OF 3, of noDom None] path_selection [OF 4, of noDom None] 1 2 by simp
qed

section \<open>Failure semantics\<close>

lemma ms_Cap_group: "st' \<in> set (ms (Cap a) st) \<Longrightarrow> snd (snd st') \<noteq> None"
  by (cases st) auto

lemma Seq_memE: "st' \<in> set (ms (Seq a b) st) \<Longrightarrow> \<exists>m\<in>set (ms a st). st' \<in> set (ms b m)"
  by auto

lemma bulletRx_states:
  assumes "st' \<in> set (ms bulletRx st)"
  shows "snd (snd st') \<noteq> None"
proof -
  from assms obtain m1 where
    "st' \<in> set (ms (Seqs [Chr (OneOf [Lit 0x2D, Lit 0x2A]), Plus (Chr Space), Cap (Plus (Chr Dot)), Eol]) m1)"
    unfolding bulletRx_def Seqs.simps(2) [of Bol] using Seq_memE by blast
  then obtain m2 where "st' \<in> set (ms (Seqs [Plus (Chr Space), Cap (Plus (Chr Dot)), Eol]) m2)"
    unfolding Seqs.simps(2) [of "Chr _"] using Seq_memE by blast
  then obtain m3 where "st' \<in> set (ms (Seqs [Cap (Plus (Chr Dot)), Eol]) m3)"
    unfolding Seqs.simps(2) [of "Plus _"] using Seq_memE by blast
  then obtain m4 where m4: "m4 \<in> set (ms (Cap (Plus (Chr Dot))) m3)" "st' \<in> set (ms (Seqs [Eol]) m4)"
    unfolding Seqs.simps(2) [of "Cap _"] using Seq_memE by blast
  from m4(2) have "st' = m4" by (cases m4) (auto split: if_splits)
  with m4(1) show ?thesis using ms_Cap_group by blast
qed

lemma exec_from_group:
  assumes "\<And>st st'. st' \<in> set (ms r st) \<Longrightarrow> snd (snd st') \<noteq> None"
  shows "exec_from r p s = Some g \<Longrightarrow> g \<noteq> None"
proof (induction s arbitrary: p)
  case Nil
  show ?case
  proof (cases "ms r (p, [], None)")
    case Nil
    with Nil.prems show ?thesis by simp
  next
    case (Cons st sts)
    then have "st \<in> set (ms r (p, [], None))" by simp
    with assms have "snd (snd st) \<noteq> None" by blast
    with Cons Nil.prems show ?thesis by auto
  qed
next
  case (Cons c cs)
  show ?case
  proof (cases "ms r (p, c # cs, None)")
    case Nil
    with Cons show ?thesis by simp
  next
    case (Cons st sts)
    then have "st \<in> set (ms r (p, c # cs, None))" by simp
    with assms have "snd (snd st) \<noteq> None" by blast
    with Cons Cons.prems show ?thesis by auto
  qed
qed

lemma bulletRx_group_defined: "exec bulletRx s = Some g \<Longrightarrow> g \<noteq> None"
  unfolding exec_def using exec_from_group [of bulletRx] bulletRx_states by blast

lemma stripDup_caught: "parseFromString e html = Inl x \<Longrightarrow> stripDup e html t = html"
  by (simp add: stripDup_def)

text \<open>
  C5: whatever the input, the title and the host, the normalizer returns a string and
  no exception leaves it. An undefined or empty input gives the empty string. When the
  parser throws on the input, the result is that of the regex fallback, and a parser
  that throws in the duplicate-title pass leaves the assembled HTML as it is. The one
  value the loops read without a guard, group 1 of a bullet match, is always defined.
\<close>

theorem never_throws:
  "(\<exists>html. formatChapterContent e raw t = Inr html)
   \<and> formatChapterContent e None t = Inr []
   \<and> formatChapterContent e (Some []) t = Inr []
   \<and> (\<forall>r x. r \<noteq> [] \<and> hasHtmlHeadings r \<and> parseFromString e r = Inl x
          \<longrightarrow> formatChapterContent e (Some r) t = Inr (regexFallback e r t))
   \<and> (\<forall>html x. parseFromString e html = Inl x \<longrightarrow> stripDup e html t = html)
   \<and> (\<forall>s g. exec bulletRx s = Some g \<longrightarrow> g \<noteq> None)"
proof -
  have "\<exists>html. formatChapterContent e raw t = Inr html"
    by (auto simp: formatChapterContent_def htmlStructuredPath_def split: option.splits sum.splits)
  moreover have "\<forall>r x. r \<noteq> [] \<and> hasHtmlHeadings r \<and> parseFromString e r = Inl x
          \<longrightarrow> formatChapterContent e (Some r) t = Inr (regexFallback e r t)"
    by (simp add: formatChapterContent_def htmlStructuredPath_def domPath_def)
  ultimately show ?thesis
    using stripDup_caught bulletRx_group_defined by (simp add: formatChapterContent_def)
qed

theorem never_throws_witness:
  "formatChapterContent noDom (Some (js ''<h1>T</h1>- one'')) (Some (js ''T''))
     = Inr (js ''<h1>T</h1>\<newline><ul style=\"margin: 12px 0; padding-left: 1.25rem; list-style: disc;\">\<newline><li>one</li>\<newline></ul>'')"
proof -
  have 1: "js ''<h1>T</h1>- one'' \<noteq> []" by (simp add: js_def)
  have 2: "hasHtmlHeadings (js ''<h1>T</h1>- one'')"
    by (simp add: hasHtmlHeadings_def hasHtmlHeadingsRx_def rx_eval cls_eval)
  have 3: "parseFromString noDom (js ''<h1>T</h1>- one'') = Inl Thrown"
    by (simp add: noDom_def hostWith_def)
  have 4: "fallbackOut (js ''<h1>T</h1>- one'') = [js ''<h1>T</h1>'', ulOpen, js ''<li>one</li>'', js ''</ul>'']"
    by (simp add: fallback_eval listItem_def escapeHtml_def rx_eval cls_eval str_eval)
  have 5: "parseFromString noDom html = Inl Thrown" for html
    by (simp add: noDom_def hostWith_def)
  have "formatChapterContent noDom (Some (js ''<h1>T</h1>- one'')) (Some (js ''T''))
          = Inr (regexFallback noDom (js ''<h1>T</h1>- one'') (Some (js ''T'')))"
    using never_throws [of noDom "Some (js ''<h1>T</h1>- one'')" "Some (js ''T'')"] 1 2 3 by blast
  also have "regexFallback noDom (js ''<h1>T</h1>- one'') (Some (js ''T''))
          = fallbackBuilt (js ''<h1>T</h1>- one'')"
    using never_throws [of noDom "Some (js ''<h1>T</h1>- one'')" "Some (js ''T'')"] 5
    by (simp add: regexFallback_def)
  also have "fallbackBuilt (js ''<h1>T</h1>- one'')
          = js ''<h1>T</h1>\<newline><ul style=\"margin: 12px 0; padding-left: 1.25rem; list-style: disc;\">\<newline><li>one</li>\<newline></ul>''"
    unfolding fallbackBuilt_def 4 by (simp add: ulOpen_def js_def)
  finally show ?thesis .
qed

section \<open>Blank input\<close>

lemma ws_no_heading:
  assumes "\<forall>c\<in>set raw. isWhiteSpace c"
  shows "\<not> containsHeadingTag raw"
proof
  assume "containsHeadingTag raw"
  then obtain pre h d c post where "raw = pre @ [0x3C, h, d, c] @ post"
    unfolding containsHeadingTag_def headingTagAt_def by blast
  then have "(0x3C::codeunit) \<in> set raw" by simp
  with assms have "isWhiteSpace 0x3C" by blast
  then show False by (simp add: isWhiteSpace_def)
qed

lemma trim_ws:
  assumes "\<forall>c\<in>set raw. isWhiteSpace c"
  shows "trim raw = []"
proof -
  from assms have "\<forall>c\<in>set (rev raw). isWhiteSpace c" by simp
  then have d: "dropWhile isWhiteSpace (rev raw) = []" by (simp only: dropWhile_eq_Nil_conv)
  show ?thesis unfolding trim_def trimEnd_def trimStart_def d by simp
qed

lemma plainLines_empty: "trim raw = [] \<Longrightarrow> plainLines raw = [[]]"
  by (simp add: plainLines_def replaceAll_def split_def boldRx_def Str_def)

lemma plainRun_blank: "plainRun plainInit [[]] = []"
  by (simp add: plainRun_def plainInit_def plainLine_def trim_def trimEnd_def trimStart_def
        closeListIfOpen_def)

lemma stripDup_empty: "emptyDocOk e \<Longrightarrow> stripDup e [] t = []"
  by (auto simp: stripDup_def emptyDocOk_def split: sum.splits)

text \<open>
  C10: a non-empty input made of white space only takes the plain-text path, every
  line of it is blank, no block element is emitted, and the result is the empty
  string, whatever the title, in a host whose parser throws or gives the empty string
  an empty body that serialises to the empty string.
\<close>

theorem whitespace_only:
  assumes "raw \<noteq> []" and "\<forall>c\<in>set raw. isWhiteSpace c" and "emptyDocOk e"
  shows "\<not> hasHtmlHeadings raw \<and> plainResult raw = []
         \<and> formatChapterContent e (Some raw) t = Inr []"
proof -
  have h: "\<not> hasHtmlHeadings raw"
    using assms(2) by (simp add: hasHtmlHeadings_iff ws_no_heading)
  have r: "plainResult raw = []"
    using assms(2) by (simp add: plainResult_def plainLines_empty trim_ws plainRun_blank)
  have "plainPath e raw t = []"
    using assms(3) by (simp add: plainPath_def plainBuilt_def r stripDup_empty)
  with h r show ?thesis using assms(1) by (simp add: formatChapterContent_def)
qed

theorem whitespace_only_witness:
  "formatChapterContent (hostWith [([], [])]) (Some [0x20, 0xA, 0x9]) (Some (js ''Title'')) = Inr []"
proof -
  have 1: "[0x20, 0xA, 0x9] \<noteq> ([]::jsstring)" by simp
  have 2: "\<forall>c\<in>set [0x20, 0xA, 0x9]. isWhiteSpace c" by (simp add: isWhiteSpace_def)
  have 3: "emptyDocOk (hostWith [([], [])])" by (simp add: emptyDocOk_def hostWith_def)
  show ?thesis using whitespace_only [OF 1 2 3] by simp
qed

section \<open>Escaping\<close>

lemma replace_from_Lit:
  "replace_from (Seq (Chr (Lit a)) Eps) [Txt t] p s = concat (map (\<lambda>x. if x = a then js t else [x]) s)"
  by (induction s arbitrary: p) auto

lemma replaceAll_Lit:
  "replaceAll (Str [c]) [Txt t] s = concat (map (\<lambda>x. if x = of_char c then js t else [x]) s)"
  by (simp add: replaceAll_def Str_def replace_from_Lit)

lemma escapeHtml_no_angle: "list_all (\<lambda>c. c \<noteq> 0x3C \<and> c \<noteq> 0x3E) (escapeHtml v)"
proof -
  define v1 where "v1 = replaceAll (Str ''&'') [Txt ''&amp;''] v"
  define v2 where "v2 = replaceAll (Str ''<'') [Txt ''&lt;''] v1"
  define v3 where "v3 = replaceAll (Str ''>'') [Txt ''&gt;''] v2"
  define v4 where \<open>v4 = replaceAll (Str ''"'') [Txt ''&quot;''] v3\<close>
  define v5 where "v5 = replaceAll (Str [CHR 0x27]) [Txt ''&#039;''] v4"
  have e: "escapeHtml v = v5"
    by (simp only: escapeHtml_def v1_def v2_def v3_def v4_def v5_def)
  have a2: "0x3C \<notin> set v2"
    unfolding v2_def replaceAll_Lit by (auto simp: js_def)
  have a3: "0x3C \<notin> set v3 \<and> 0x3E \<notin> set v3"
    unfolding v3_def replaceAll_Lit using a2 by (auto simp: js_def split: if_splits)
  have a4: "0x3C \<notin> set v4 \<and> 0x3E \<notin> set v4"
    unfolding v4_def replaceAll_Lit using a3 by (auto simp: js_def split: if_splits)
  have a5: "0x3C \<notin> set v5 \<and> 0x3E \<notin> set v5"
    unfolding v5_def replaceAll_Lit using a4 by (auto simp: js_def split: if_splits)
  show ?thesis unfolding e using a5 by (auto simp: list_all_iff)
qed

section \<open>The lines of the plain-text path\<close>

lemma wrappedBy_intro:
  "list_all (\<lambda>c. c \<noteq> 0x3C \<and> c \<noteq> 0x3E) mid \<Longrightarrow> wrappedBy opn cls (opn @ mid @ cls)"
  by (simp add: wrappedBy_def)

lemma wrapped_heading2: "wrappedLine (heading2 (escapeHtml t))"
  by (simp add: wrappedLine_def heading2_def wrappedBy_intro escapeHtml_no_angle)

lemma wrapped_heading3: "wrappedLine (heading3 (escapeHtml t))"
  by (simp add: wrappedLine_def heading3_def wrappedBy_intro escapeHtml_no_angle)

lemma wrapped_pLine: "wrappedLine (pLine t)"
  by (simp add: wrappedLine_def pLine_def wrappedBy_intro escapeHtml_no_angle)

lemma wrapped_listItem: "wrappedLine (listItem t)"
  by (simp add: wrappedLine_def listItem_def wrappedBy_intro escapeHtml_no_angle)

lemma not_wrapped_brackets:
  "\<not> wrappedLine (js ''<ul>'')" "\<not> wrappedLine (js ''</ul>'')" "\<not> wrappedLine ulOpen"
  by (simp_all add: wrappedLine_def wrappedBy_def h2Open_def h3Open_def pOpen_def ulOpen_def js_def)


text \<open>What one turn of the loop appends, and how many block elements are among it.\<close>

lemma plainLine_emits:
  "\<exists>new. result (plainLine st l) = result st @ new
     \<and> (\<forall>x\<in>set new. x = heading2 (escapeHtml (trim (trimEnd l)))
                     \<or> x = heading3 (escapeHtml (trim (trimEnd l)))
                     \<or> x = pLine (trim (trimEnd l)) \<or> (\<exists>g. x = listItem g)
                     \<or> x = js ''<ul>'' \<or> x = js ''</ul>'')
     \<and> length (filter wrappedLine new) = (if trim (trimEnd l) = [] then 0 else 1)"
  by (auto simp: plainLine_def Let_def closeListIfOpen_def pLine_def wrapped_heading2 wrapped_heading3
        wrapped_pLine [unfolded pLine_def] wrapped_listItem not_wrapped_brackets
      split: option.splits)



section \<open>The first heading\<close>











section \<open>Paragraph lines\<close>

text \<open>
  C3, as the code has it: in the plain-text path a line that is not blank, comes after
  the first heading, is not a dotted-numeric heading, not a bullet and not a
  subheading, closes an open list and is emitted as exactly one \<^verbatim>\<open><p style=...>\<close>
  element holding the whole trimmed line, HTML-escaped. The line is not split into
  sentences.
\<close>

theorem plain_paragraph:
  assumes "firstHeadingDone st" and "trim (trimEnd l) \<noteq> []"
    and "\<not> test dottedNumericRx (trim (trimEnd l))"
    and "exec bulletRx (trim (trimEnd l)) = None"
    and "\<not> looksLikeHeading (trim (trimEnd l))"
  shows "plainLine st l
           = (closeListIfOpen st)\<lparr>result := result (closeListIfOpen st) @ [pLine (trim (trimEnd l))]\<rparr>"
  using assms by (simp add: plainLine_def Let_def pLine_def)

theorem plain_paragraph_witness:
  "plainLine \<lparr>result = [js ''<ul>'', js ''<li>x</li>''], firstHeadingDone = True, inList = True\<rparr>
       (js ''  some text here. '')
     = \<lparr>result = [js ''<ul>'', js ''<li>x</li>'', js ''</ul>'', pLine (js ''some text here.'')],
        firstHeadingDone = True, inList = False\<rparr>"
proof -
  let ?st = "\<lparr>result = [js ''<ul>'', js ''<li>x</li>''], firstHeadingDone = True, inList = True\<rparr>"
  have t: "trim (trimEnd (js ''  some text here. '')) = js ''some text here.''"
    by (simp add: str_eval cls_eval js_def)
  have 1: "firstHeadingDone ?st" by simp
  have 2: "trim (trimEnd (js ''  some text here. '')) \<noteq> []" unfolding t by (simp add: js_def)
  have 3: "\<not> test dottedNumericRx (trim (trimEnd (js ''  some text here. '')))"
    unfolding t by (simp add: dottedNumericRx_def rx_eval cls_eval)
  have 4: "exec bulletRx (trim (trimEnd (js ''  some text here. ''))) = None"
    unfolding t by (simp add: bulletRx_def rx_eval cls_eval)
  have 5: "\<not> looksLikeHeading (trim (trimEnd (js ''  some text here. '')))"
    unfolding t by (simp add: looksLikeHeading_def endPunctRx_def capitalRx_def rx_eval cls_eval)
  show ?thesis using plain_paragraph [OF 1 2 3 4 5] unfolding t by (simp add: closeListIfOpen_def)
qed

theorem plain_paragraph_not_split:
  "trim (trimEnd (js ''a b. c d. e f.'')) \<noteq> []
   \<and> \<not> test dottedNumericRx (trim (trimEnd (js ''a b. c d. e f.'')))
   \<and> exec bulletRx (trim (trimEnd (js ''a b. c d. e f.''))) = None
   \<and> \<not> looksLikeHeading (trim (trimEnd (js ''a b. c d. e f.'')))
   \<and> result (plainLine \<lparr>result = [], firstHeadingDone = True, inList = False\<rparr> (js ''a b. c d. e f.''))
       = [pLine (js ''a b. c d. e f.'')]
   \<and> map pLine (paragraphChunks (sentences (trim (trimEnd (js ''a b. c d. e f.'')))))
       = [pLine (js ''a b.  c d.''), pLine (js ''e f.'')]
   \<and> [pLine (js ''a b. c d. e f.'')] \<noteq> [pLine (js ''a b.  c d.''), pLine (js ''e f.'')]"
proof -
  have t: "trim (trimEnd (js ''a b. c d. e f.'')) = js ''a b. c d. e f.''"
    by (simp add: str_eval cls_eval js_def)
  have 2: "js ''a b. c d. e f.'' \<noteq> []" by (simp add: js_def)
  have 3: "\<not> test dottedNumericRx (js ''a b. c d. e f.'')"
    by (simp add: dottedNumericRx_def rx_eval cls_eval)
  have 4: "exec bulletRx (js ''a b. c d. e f.'') = None"
    by (simp add: bulletRx_def rx_eval cls_eval)
  have 5: "\<not> looksLikeHeading (js ''a b. c d. e f.'')"
    by (simp add: looksLikeHeading_def endPunctRx_def capitalRx_def rx_eval cls_eval)
  have 6: "result (plainLine \<lparr>result = [], firstHeadingDone = True, inList = False\<rparr> (js ''a b. c d. e f.''))
       = [pLine (js ''a b. c d. e f.'')]"
    using 2 3 4 5 by (simp add: plainLine_def Let_def t pLine_def closeListIfOpen_def)
  have 7: "sentences (js ''a b. c d. e f.'') = [js ''a b.'', js '' c d.'', js '' e f.'']"
    by (simp add: sentences_def sentenceRx_def rx_eval cls_eval)
  have 8: "paragraphChunks [js ''a b.'', js '' c d.'', js '' e f.''] = [js ''a b.  c d.'', js ''e f.'']"
    by (simp add: paragraphChunks_def str_eval cls_eval js_def)
  have 9: "[pLine (js ''a b. c d. e f.'')] \<noteq> [pLine (js ''a b.  c d.''), pLine (js ''e f.'')]"
    by simp
  show ?thesis unfolding t using 2 3 4 5 6 9 by (simp add: 7 8)
qed

section \<open>Every emitted line\<close>

lemma plainLine_all:
  assumes "\<And>t. P (heading2 (escapeHtml t))" and "\<And>t. P (heading3 (escapeHtml t))"
    and "\<And>t. P (pLine t)" and "\<And>g. P (listItem g)" and "P (js ''<ul>'')" and "P (js ''</ul>'')"
    and "\<forall>x\<in>set (result st). P x"
  shows "\<forall>x\<in>set (result (plainLine st l)). P x"
proof -
  obtain new where new: "result (plainLine st l) = result st @ new"
    "\<forall>x\<in>set new. x = heading2 (escapeHtml (trim (trimEnd l)))
                     \<or> x = heading3 (escapeHtml (trim (trimEnd l)))
                     \<or> x = pLine (trim (trimEnd l)) \<or> (\<exists>g. x = listItem g)
                     \<or> x = js ''<ul>'' \<or> x = js ''</ul>''"
    using plainLine_emits [of st l] by blast
  have "P x" if "x \<in> set new" for x
  proof -
    from new(2) that consider "x = heading2 (escapeHtml (trim (trimEnd l)))"
      | "x = heading3 (escapeHtml (trim (trimEnd l)))" | "x = pLine (trim (trimEnd l))"
      | g where "x = listItem g" | "x = js ''<ul>''" | "x = js ''</ul>''"
      by blast
    then show ?thesis by cases (simp_all add: assms(1-6))
  qed
  with assms(7) show ?thesis unfolding new(1) by auto
qed

lemma plainRun_all:
  assumes "\<And>t. P (heading2 (escapeHtml t))" and "\<And>t. P (heading3 (escapeHtml t))"
    and "\<And>t. P (pLine t)" and "\<And>g. P (listItem g)" and "P (js ''<ul>'')" and "P (js ''</ul>'')"
  shows "\<forall>x\<in>set (plainRun plainInit ls). P x"
proof -
  have "\<forall>x\<in>set (result st). P x \<Longrightarrow> \<forall>x\<in>set (result (foldl plainLine st ls)). P x" for st
  proof (induction ls arbitrary: st)
    case Nil
    then show ?case by simp
  next
    case (Cons l ls)
    have "\<forall>x\<in>set (result (plainLine st l)). P x"
      by (rule plainLine_all [where P = P]) (fact assms Cons.prems)+
    from Cons.IH [OF this] show ?case by simp
  qed
  from this [of plainInit] have "\<forall>x\<in>set (result (foldl plainLine plainInit ls)). P x"
    by (simp add: plainInit_def)
  then show ?thesis using assms(6) by (auto simp: plainRun_def closeListIfOpen_def)
qed

section \<open>The tree after the DOM pass\<close>

lemma map_of_setAttribute: "map_of (setAttribute k v a) k = Some v"
  by (induction a) auto

lemma styledFor_styleAll: "styledFor tag v (styleAll tag v n)"
  by (induction n) (auto simp: map_of_setAttribute list_all_iff)

lemma styledFor_styleAll_other:
  "tag' \<noteq> tag \<Longrightarrow> styledFor tag v n \<Longrightarrow> styledFor tag v (styleAll tag' v' n)"
  by (induction n) (auto simp: list_all_iff)

lemma styledFor_replaceBr: "styledFor tag v n \<Longrightarrow> styledFor tag v (replaceBr n)"
  by (induction n) (auto simp: list_all_iff)

lemma styledFor_wrapLooseContent:
  "(tag = js ''p'' \<longrightarrow> v = pStyleDom) \<Longrightarrow> list_all (styledFor tag v) ns
     \<Longrightarrow> list_all (styledFor tag v) (wrapLooseContent ns)"
  by (induction ns rule: wrapLooseContent.induct) (auto simp: Let_def newP_def list_all_iff)

lemma tags_distinct:
  "js ''h3'' \<noteq> js ''h2''" "js ''p'' \<noteq> js ''h2''" "js ''ul'' \<noteq> js ''h2''"
  "js ''p'' \<noteq> js ''h3''" "js ''ul'' \<noteq> js ''h3''" "js ''ul'' \<noteq> js ''p''"
  "js ''h2'' \<noteq> js ''p''" "js ''h3'' \<noteq> js ''p''"
  by (simp_all add: js_def)

lemma domNormalize_styled: "\<forall>n\<in>set (domNormalize e t body). styled n"
proof -
  define b2 where "b2 = removeTitles e t body"
  define b6 where "b6 = map (styleAll (js ''ul'') ulStyleDom) (map (styleAll (js ''p'') pStyleDom)
      (map (styleAll (js ''h3'') h3StyleDom) (map (styleAll (js ''h2'') h2StyleDom) b2)))"
  have d: "domNormalize e t body = wrapLooseContent (map replaceBr b6)"
    by (simp only: domNormalize_def b6_def b2_def Let_def)
  have h2: "list_all (styledFor (js ''h2'') h2StyleDom) b6"
    by (simp add: b6_def list_all_iff styledFor_styleAll styledFor_styleAll_other tags_distinct)
  have h3: "list_all (styledFor (js ''h3'') h3StyleDom) b6"
    by (simp add: b6_def list_all_iff styledFor_styleAll styledFor_styleAll_other tags_distinct)
  have p: "list_all (styledFor (js ''p'') pStyleDom) b6"
    by (simp add: b6_def list_all_iff styledFor_styleAll styledFor_styleAll_other tags_distinct)
  have ul: "list_all (styledFor (js ''ul'') ulStyleDom) b6"
    by (simp add: b6_def list_all_iff styledFor_styleAll)
  have w: "list_all (styledFor tag v) (wrapLooseContent (map replaceBr b6))"
    if "list_all (styledFor tag v) b6" and "tag = js ''p'' \<longrightarrow> v = pStyleDom" for tag v
    using that by (intro styledFor_wrapLooseContent) (simp_all add: list_all_iff styledFor_replaceBr)
  show ?thesis
    unfolding d styled_def using w [OF h2] w [OF h3] w [OF p] w [OF ul]
    by (simp add: list_all_iff tags_distinct)
qed

section \<open>The matcher on runs of a class\<close>

lemma ms_suffix: "st' \<in> set (ms r st) \<Longrightarrow> \<exists>pre. fst (snd st) = pre @ fst (snd st')"
proof (induction r st arbitrary: st' rule: ms.induct)
  case (1 k p s g)
  then show ?case by (cases s) (auto split: if_splits)
next
  case (2 st)
  then show ?case by simp
next
  case (3 a b st)
  from "3.prems" obtain m where m: "m \<in> set (ms a st)" "st' \<in> set (ms b m)" by auto
  from "3.IH"(1) [OF m(1)] obtain p1 where p1: "fst (snd st) = p1 @ fst (snd m)" by blast
  from "3.IH"(2) [OF m(1) m(2)] obtain p2 where p2: "fst (snd m) = p2 @ fst (snd st')" by blast
  show ?case using p1 p2 by simp
next
  case (4 a b st)
  from "4.prems" consider "st' \<in> set (ms a st)" | "st' \<in> set (ms b st)" by auto
  then show ?case using "4.IH" by cases blast+
next
  case (5 a p s g)
  from "5.prems" consider "st' = (p, s, g)"
    | m where "m \<in> set (ms a (p, s, g))" "length (fst (snd m)) < length s" "st' \<in> set (ms (Star a) m)"
    by (auto split: if_splits)
  then show ?case
  proof cases
    case 1
    then show ?thesis by simp
  next
    case 2
    from "5.IH"(1) [OF 2(1)] obtain p1 where p1: "s = p1 @ fst (snd m)" by auto
    from "5.IH"(2) [OF 2(1) 2(2) 2(3)] obtain p2 where p2: "fst (snd m) = p2 @ fst (snd st')" by blast
    show ?thesis using p1 p2 by simp
  qed
next
  case (6 a p s g)
  from "6.prems" consider "st' = (p, s, g)"
    | m where "m \<in> set (ms a (p, s, g))" "length (fst (snd m)) < length s" "st' \<in> set (ms (Lazy a) m)"
    by (auto split: if_splits)
  then show ?case
  proof cases
    case 1
    then show ?thesis by simp
  next
    case 2
    from "6.IH"(1) [OF 2(1)] obtain p1 where p1: "s = p1 @ fst (snd m)" by auto
    from "6.IH"(2) [OF 2(1) 2(2) 2(3)] obtain p2 where p2: "fst (snd m) = p2 @ fst (snd st')" by blast
    show ?thesis using p1 p2 by simp
  qed
next
  case (7 a p s g)
  from "7.prems" obtain m where m: "m \<in> set (ms a (p, s, g))" "fst (snd st') = fst (snd m)" by auto
  from "7.IH" [OF m(1)] show ?case using m(2) by simp
next
  case (8 p s g)
  then show ?case by (auto split: if_splits)
next
  case (9 p s g)
  then show ?case by (auto split: if_splits)
next
  case (10 p s g)
  then show ?case by (auto split: if_splits)
next
  case (11 a st)
  then show ?case by (auto split: if_splits)
qed

text \<open>A greedy star over a class stops first after the whole run of the class.\<close>

lemma star_head:
  "\<exists>p' more. ms (Star (Chr k)) (p, s, g) = (p', dropWhile (inCls k) s, g) # more"
proof (induction s arbitrary: p)
  case Nil
  show ?case by simp
next
  case (Cons c cs)
  show ?case
  proof (cases "inCls k c")
    case True
    from Cons [of "Some c"] obtain p' more where
      "ms (Star (Chr k)) (Some c, cs, g) = (p', dropWhile (inCls k) cs, g) # more" by blast
    with True show ?thesis by simp
  next
    case False
    then show ?thesis by simp
  qed
qed

lemma dropWhile_run:
  "list_all P xs \<Longrightarrow> (case s of [] \<Rightarrow> True | c # _ \<Rightarrow> \<not> P c) \<Longrightarrow> dropWhile P (xs @ s) = s"
  by (induction xs) (auto split: list.splits)

text \<open>
  Where the matcher stops first: each lemma passes from the rest of an expression to
  the expression with one more piece in front.
\<close>

lemma first_Star:
  assumes "\<And>p. \<exists>p' m. ms r (p, dropWhile (inCls k) s, g) = (p', z, g) # m"
  shows "\<exists>p' m. ms (Seq (Star (Chr k)) r) (p, s, g) = (p', z, g) # m"
proof -
  obtain q more where q: "ms (Star (Chr k)) (p, s, g) = (q, dropWhile (inCls k) s, g) # more"
    using star_head by blast
  obtain p' m where "ms r (q, dropWhile (inCls k) s, g) = (p', z, g) # m"
    using assms by blast
  with q show ?thesis by simp
qed

lemma first_Plus:
  assumes "inCls k c" and "\<And>p. \<exists>p' m. ms r (p, dropWhile (inCls k) s, g) = (p', z, g) # m"
  shows "\<exists>p' m. ms (Seq (Plus (Chr k)) r) (p, c # s, g) = (p', z, g) # m"
proof -
  have "ms (Seq (Plus (Chr k)) r) (p, c # s, g) = ms (Seq (Star (Chr k)) r) (Some c, s, g)"
    using assms(1) by (simp add: Plus_def)
  then show ?thesis using first_Star [OF assms(2)] by simp
qed

lemma ws_not_digit: "isWhiteSpace c \<Longrightarrow> \<not> isDigit c"
  by (auto simp: isWhiteSpace_def isDigit_def)

lemma digit_not_ws: "isDigit c \<Longrightarrow> \<not> isWhiteSpace c"
  using ws_not_digit by blast

lemma chapter_word:
  assumes "map asciiUpper w = map asciiUpper (js ''chapter'')"
  shows "ms (Seq (StrI ''chapter'') r) (p, w @ s, g) = ms r (Some (last w), s, g)"
proof -
  have "length (map asciiUpper w) = length (map asciiUpper (js ''chapter''))"
    using assms by simp
  then have "length w = 7" by (simp add: js_def)
  then obtain c1 c2 c3 c4 c5 c6 c7 where w: "w = [c1, c2, c3, c4, c5, c6, c7]"
    by (auto simp: length_Suc_conv numeral_eq_Suc)
  show ?thesis using assms unfolding w by (simp add: StrI_def js_def)
qed

section \<open>The chapter prefix\<close>

lemma replaceFirst_chapterPrefix:
  assumes "chapterPrefixed title core"
  shows "replaceFirst chapterPrefixRx [] title = core"
proof -
  from assms obtain w ws1 ds ws2 ws3 where
    t: "title = w @ ws1 @ ds @ ws2 @ [0x3A] @ ws3 @ core"
    and w: "map asciiUpper w = map asciiUpper (js ''chapter'')"
    and ws1: "list_all isWhiteSpace ws1" and ds: "ds \<noteq> []" "list_all isDigit ds"
    and ws2: "list_all isWhiteSpace ws2" and ws3: "list_all isWhiteSpace ws3"
    and core: "case core of [] \<Rightarrow> True | c # _ \<Rightarrow> \<not> isWhiteSpace c"
    unfolding chapterPrefixed_def by blast
  from ds obtain d ds' where dd: "ds = d # ds'" "isDigit d" "list_all isDigit ds'"
    by (cases ds) auto
  let ?g = "None :: jsstring option"
  let ?r6 = "Seqs [Star (Chr Space)]"
  let ?r5 = "Seqs [Str '':'', Star (Chr Space)]"
  let ?r4 = "Seqs [Star (Chr Space), Str '':'', Star (Chr Space)]"
  let ?r3 = "Seqs [Plus (Chr Digit), Star (Chr Space), Str '':'', Star (Chr Space)]"
  let ?r2 = "Seqs [Star (Chr Space), Plus (Chr Digit), Star (Chr Space), Str '':'', Star (Chr Space)]"
  let ?s5 = "0x3A # ws3 @ core"
  let ?s4 = "ws2 @ ?s5"
  let ?s3 = "ds' @ ?s4"
  let ?s2 = "ws1 @ d # ?s3"
  have e6: "\<exists>p' m. ms ?r6 (p, ws3 @ core, ?g) = (p', core, ?g) # m" for p
  proof -
    have "dropWhile (inCls Space) (ws3 @ core) = core"
      using dropWhile_run [of "inCls Space" ws3 core] ws3 core
      by (simp add: list_all_iff split: list.splits)
    then have "\<exists>p' m. ms Eps (p, dropWhile (inCls Space) (ws3 @ core), ?g) = (p', core, ?g) # m" for p
      by simp
    from first_Star [of Eps Space "ws3 @ core" ?g core p, OF this] show ?thesis by simp
  qed
  have e5: "\<exists>p' m. ms ?r5 (p, ?s5, ?g) = (p', core, ?g) # m" for p
    using e6 [of "Some 0x3A"] by (simp add: Str_def)
  have e4: "\<exists>p' m. ms ?r4 (p, ?s4, ?g) = (p', core, ?g) # m" for p
  proof -
    have "dropWhile (inCls Space) ?s4 = ?s5"
      using dropWhile_run [of "inCls Space" ws2 ?s5] ws2
      by (simp add: list_all_iff isWhiteSpace_def)
    then have "\<exists>p' m. ms ?r5 (p, dropWhile (inCls Space) ?s4, ?g) = (p', core, ?g) # m" for p
      using e5 [of p] by simp
    from first_Star [of ?r5 Space ?s4 ?g core p, OF this] show ?thesis by simp
  qed
  have colon: "\<not> isDigit 0x3A" by (simp add: isDigit_def)
  have e3: "\<exists>p' m. ms ?r3 (p, d # ?s3, ?g) = (p', core, ?g) # m" for p
  proof -
    have "case ?s4 of [] \<Rightarrow> True | c # _ \<Rightarrow> \<not> inCls Digit c"
      using ws2 colon by (cases ws2) (auto simp: ws_not_digit)
    then have "dropWhile (inCls Digit) ?s3 = ?s4"
      using dropWhile_run [of "inCls Digit" ds' ?s4] dd(3)
      by (simp add: list_all_iff)
    then have "\<exists>p' m. ms ?r4 (p, dropWhile (inCls Digit) ?s3, ?g) = (p', core, ?g) # m" for p
      using e4 [of p] by simp
    from first_Plus [of Digit d ?r4 ?s3 ?g core p, OF _ this] dd(2) show ?thesis by simp
  qed
  have e2: "\<exists>p' m. ms ?r2 (p, ?s2, ?g) = (p', core, ?g) # m" for p
  proof -
    have "dropWhile (inCls Space) ?s2 = d # ?s3"
      using dropWhile_run [of "inCls Space" ws1 "d # ?s3"] ws1 dd(2)
      by (simp add: list_all_iff digit_not_ws)
    then have "\<exists>p' m. ms ?r3 (p, dropWhile (inCls Space) ?s2, ?g) = (p', core, ?g) # m" for p
      using e3 [of p] by simp
    from first_Star [of ?r3 Space ?s2 ?g core p, OF this] show ?thesis by simp
  qed
  have t': "title = w @ ?s2"
    using t dd(1) by simp
  have "ms chapterPrefixRx (None, title, ?g) = ms ?r2 (Some (last w), ?s2, ?g)"
    unfolding chapterPrefixRx_def t' Seqs.simps
    using chapter_word [OF w, of "Seq (Star (Chr Space)) (Seq (Plus (Chr Digit)) (Seq (Star (Chr Space))
        (Seq (Str '':'') (Seq (Star (Chr Space)) Eps))))" None ?s2 ?g]
    by (simp del: ms.simps(3) add: ms.simps(3) [of Bol])
  with e2 [of "Some (last w)"] obtain p' m where
    m: "ms chapterPrefixRx (None, title, None) = (p', core, None) # m" by auto
  have "title \<noteq> []" using t' w by (auto simp: js_def)
  then obtain c cs where "title = c # cs" by (cases title) auto
  with m show ?thesis by (simp add: replaceFirst_def)
qed

section \<open>White space\<close>

lemma replace_from_collapse: "replace_from wsRunRx [Txt '' ''] p s = collapse s"
proof (induction s arbitrary: p rule: collapse.induct)
  case 1
  show ?case by (simp add: wsRunRx_def Plus_def)
next
  case (2 c cs)
  show ?case
  proof (cases "isWhiteSpace c")
    case True
    obtain q more where q: "ms (Star (Chr Space)) (Some c, cs, None)
        = (q, dropWhile (inCls Space) cs, None) # more"
      using star_head by blast
    have d: "dropWhile (inCls Space) cs = dropWhile isWhiteSpace cs"
      by (rule arg_cong [where f = "\<lambda>P. dropWhile P cs"]) auto
    have "ms wsRunRx (p, c # cs, None) = (q, dropWhile isWhiteSpace cs, None) # more"
      using True q by (simp add: wsRunRx_def Plus_def d)
    moreover have "length (dropWhile isWhiteSpace cs) < length (c # cs)"
      by (simp add: length_dropWhile_le less_Suc_eq_le)
    ultimately show ?thesis using True "2.IH"(1) [OF True, of q] by (simp add: js_def)
  next
    case False
    then have "ms wsRunRx (p, c # cs, None) = []" by (simp add: wsRunRx_def Plus_def)
    then show ?thesis using False "2.IH"(2) [OF False, of "Some c"] by simp
  qed
qed

lemma norm_collapse: "norm e s = toLowerCase e (trim (collapse s))"
  by (simp add: norm_def replaceAll_def replace_from_collapse)

lemma trimEnd_fix: "s = [] \<or> \<not> isWhiteSpace (last s) \<Longrightarrow> trimEnd s = s"
  by (cases s rule: rev_cases) (auto simp: trimEnd_def)

lemma trimEnd_last: "trimEnd s = [] \<or> \<not> isWhiteSpace (last (trimEnd s))"
proof (cases "dropWhile isWhiteSpace (rev s)")
  case Nil
  then show ?thesis by (simp add: trimEnd_def)
next
  case (Cons c cs)
  then have "\<not> isWhiteSpace c" by (metis hd_dropWhile list.distinct(1) list.sel(1))
  with Cons show ?thesis by (simp add: trimEnd_def)
qed

lemma trim_idem: "trim (trim s) = trim s"
proof -
  let ?u = "trimEnd s"
  let ?v = "dropWhile isWhiteSpace ?u"
  have "?v = [] \<or> \<not> isWhiteSpace (last ?v)"
  proof (cases "?v = []")
    case True
    then show ?thesis by simp
  next
    case False
    then have "last ?v = last ?u"
      by (metis append_take_drop_id dropWhile_eq_drop last_appendR)
    moreover have "?u \<noteq> []" using False by auto
    ultimately show ?thesis using trimEnd_last [of s] by simp
  qed
  then have "trimEnd ?v = ?v" by (rule trimEnd_fix)
  then show ?thesis by (simp add: trim_def trimStart_def)
qed

lemma dropWhile_keeps: "c \<in> set s \<Longrightarrow> \<not> P c \<Longrightarrow> c \<in> set (dropWhile P s)"
  by (induction s) auto

lemma trim_nonempty: "\<exists>c\<in>set s. \<not> isWhiteSpace c \<Longrightarrow> trim s \<noteq> []"
proof -
  assume "\<exists>c\<in>set s. \<not> isWhiteSpace c"
  then obtain c where c: "c \<in> set s" "\<not> isWhiteSpace c" by blast
  then have "c \<in> set (dropWhile isWhiteSpace (rev s))" by (simp add: dropWhile_keeps)
  then have "c \<in> set (trimEnd s)" by (simp add: trimEnd_def)
  then have "c \<in> set (dropWhile isWhiteSpace (trimEnd s))" using c(2) by (simp add: dropWhile_keeps)
  then have "dropWhile isWhiteSpace (trimEnd s) \<noteq> []" by (metis empty_iff list.set(1))
  then show ?thesis unfolding trim_def trimStart_def .
qed

lemma nonempty_trim_has: "trim s \<noteq> [] \<Longrightarrow> \<exists>c\<in>set (trim s). \<not> isWhiteSpace c"
  unfolding trim_def trimStart_def
  by (metis hd_dropWhile list.set_sel(1))

section \<open>Sentences\<close>

lemma terminator_not_ws: "isTerminator c \<Longrightarrow> \<not> isWhiteSpace c"
  by (auto simp: isTerminator_def isWhiteSpace_def)

lemma sentence_states:
  assumes "st' \<in> set (ms sentenceRx (p, s, g))"
  shows "\<exists>pre. s = pre @ fst (snd st') \<and> (\<exists>c\<in>set pre. isTerminator c)"
proof -
  let ?A = "Plus (Chr (NoneOf [Lit 0x2E, Lit 0x21, Lit 0x3F]))"
  let ?T = "Chr (OneOf [Lit 0x2E, Lit 0x21, Lit 0x3F])"
  let ?L = "Ahead (Alt (Chr Space) Eol)"
  from assms obtain m1 where m1: "m1 \<in> set (ms ?A (p, s, g))"
      "st' \<in> set (ms (Seqs [Plus ?T, ?L]) m1)"
    unfolding sentenceRx_def Seqs.simps(2) [of ?A] using Seq_memE by blast
  from m1(2) obtain m2 where m2: "m2 \<in> set (ms (Plus ?T) m1)" "st' \<in> set (ms (Seqs [?L]) m2)"
    unfolding Seqs.simps(2) [of "Plus ?T"] using Seq_memE by blast
  from m2(2) have e: "st' = m2" by (auto split: if_splits)
  from m2(1) obtain m3 where m3: "m3 \<in> set (ms ?T m1)" "m2 \<in> set (ms (Star ?T) m3)"
    unfolding Plus_def using Seq_memE by blast
  from ms_suffix [OF m1(1)] obtain p1 where p1: "s = p1 @ fst (snd m1)" by auto
  obtain q1 s1 g1 where q1: "m1 = (q1, s1, g1)" by (cases m1) auto
  from m3(1) obtain c where c: "s1 = c # fst (snd m3)" "isTerminator c"
    unfolding q1 by (cases s1) (auto simp: isTerminator_def split: if_splits)
  from ms_suffix [OF m3(2)] obtain p3 where p3: "fst (snd m3) = p3 @ fst (snd m2)" by auto
  have "s = (p1 @ c # p3) @ fst (snd st')"
    using p1 q1 c(1) p3 e by simp
  moreover have "\<exists>x\<in>set (p1 @ c # p3). isTerminator x" using c(2) by auto
  ultimately show ?thesis by blast
qed

lemma match_from_all:
  assumes "\<And>p s st'. st' \<in> set (ms r (p, s, None)) \<Longrightarrow> \<exists>pre. s = pre @ fst (snd st') \<and> Q pre"
    and "x \<in> set (match_from r p s)"
  shows "Q x"
  using assms
proof (induction r p s rule: match_from.induct)
  case (1 r p)
  note H = "1.prems"(1)
  show ?case
  proof (cases "ms r (p, [], None)")
    case Nil
    with "1.prems"(2) show ?thesis by simp
  next
    case (Cons st sts)
    then have "st \<in> set (ms r (p, [], None))" by simp
    from H [OF this] have "Q []" by auto
    with "1.prems"(2) Cons show ?thesis by simp
  qed
next
  case (2 r p c cs)
  note H = "2.prems"(1)
  show ?case
  proof (cases "ms r (p, c # cs, None)")
    case Nil
    with "2.prems"(2) "2.IH"(1) [OF Nil H] show ?thesis by simp
  next
    case (Cons st sts)
    then have "st \<in> set (ms r (p, c # cs, None))" by simp
    from H [OF this] obtain pre where pre: "c # cs = pre @ fst (snd st)" "Q pre" by blast
    show ?thesis
    proof (cases "length (fst (snd st)) < length (c # cs)")
      case True
      have "length (c # cs) - length (fst (snd st)) = length pre"
        by (subst pre(1)) simp
      moreover have "take (length pre) (c # cs) = pre"
        by (subst pre(1)) simp
      ultimately have "take (length (c # cs) - length (fst (snd st))) (c # cs) = pre"
        by (simp only:)
      with "2.prems"(2) Cons True pre(2) "2.IH"(2) [OF Cons True H] show ?thesis by auto
    next
      case False
      have "length (c # cs) = length pre + length (fst (snd st))"
        by (subst pre(1)) simp
      with False have "pre = []" by simp
      with "2.prems"(2) Cons False pre(2) "2.IH"(3) [OF Cons False H] show ?thesis by auto
    qed
  qed
qed

lemma sentence_has_terminator: "x \<in> set (matchAll sentenceRx s) \<Longrightarrow> \<exists>c\<in>set x. isTerminator c"
  unfolding matchAll_def
  by (erule match_from_all [where Q = "\<lambda>x. \<exists>c\<in>set x. isTerminator c", rotated]) (rule sentence_states)




lemma sentences_nonblank:
  assumes "x \<noteq> []" and "trim x = x"
  shows "sentences x \<noteq> [] \<and> (\<forall>y\<in>set (sentences x). \<exists>c\<in>set y. \<not> isWhiteSpace c)"
proof (cases "matchAll sentenceRx x")
  case Nil
  then have "sentences x = [x]" by (simp add: sentences_def)
  moreover have "\<exists>c\<in>set x. \<not> isWhiteSpace c"
    using nonempty_trim_has [of x] assms by simp
  ultimately show ?thesis by simp
next
  case (Cons y ys)
  then have s: "sentences x = matchAll sentenceRx x" by (simp add: sentences_def)
  have "\<exists>c\<in>set z. \<not> isWhiteSpace c" if "z \<in> set (matchAll sentenceRx x)" for z
    using sentence_has_terminator [OF that] terminator_not_ws by blast
  with Cons show ?thesis unfolding s by simp
qed

lemma chunks_nonempty:
  assumes "ss \<noteq> []" and "\<forall>y\<in>set ss. \<exists>c\<in>set y. \<not> isWhiteSpace c"
  shows "paragraphChunks ss \<noteq> []"
proof -
  obtain a r where ss: "ss = a # r" using assms(1) by (cases ss) auto
  from assms(2) ss obtain c where c: "c \<in> set a" "\<not> isWhiteSpace c" by auto
  show ?thesis
  proof (cases r)
    case Nil
    have "trim a \<noteq> []" using c by (intro trim_nonempty) blast
    with ss Nil show ?thesis by (simp add: paragraphChunks_def)
  next
    case (Cons b r')
    have "trim (a @ js '' '' @ b) \<noteq> []" using c by (intro trim_nonempty) auto
    with ss Cons show ?thesis by (simp add: paragraphChunks_def)
  qed
qed

lemma paragraphs_nonempty: "x \<noteq> [] \<Longrightarrow> trim x = x \<Longrightarrow> paragraphChunks (sentences x) \<noteq> []"
  using sentences_nonblank chunks_nonempty by blast


section \<open>Loose text in the tree\<close>








section \<open>The title in an \<^verbatim>\<open>h1\<close>\<close>

lemma length_removeTitleH1: "length (removeTitleH1 m n) \<le> 1"
  by (cases n) auto

lemma length_concat_le:
  "\<forall>c\<in>set cs. length (f c) \<le> 1 \<Longrightarrow> length (concat (map f cs)) \<le> length cs"
  by (induction cs) auto

lemma concat_same:
  "\<forall>c\<in>set cs. length (f c) \<le> 1 \<Longrightarrow> concat (map f cs) = cs \<Longrightarrow> \<forall>c\<in>set cs. f c = [c]"
proof (induction cs)
  case Nil
  then show ?case by simp
next
  case (Cons c cs)
  have l: "length (concat (map f cs)) \<le> length cs"
    using Cons.prems(1) by (intro length_concat_le) simp
  show ?case
  proof (cases "f c")
    case Nil
    with Cons.prems(2) have "concat (map f cs) = c # cs" by simp
    with l show ?thesis by simp
  next
    case (Cons y ys)
    moreover have "length (f c) \<le> 1" using Cons.prems(1) by simp
    ultimately have fc: "f c = [y]" by simp
    with Cons.prems(2) have "y = c" "concat (map f cs) = cs" by simp_all
    with Cons.IH Cons.prems(1) fc show ?thesis by simp
  qed
qed

lemma concat_singletons: "\<forall>c\<in>set cs. f c = [c] \<Longrightarrow> concat (map f cs) = cs"
  by (induction cs) auto

lemma removeTitleH1_same: "removeTitleH1 m n = [n] \<longleftrightarrow> \<not> containsTitleH1 m n"
proof (induction n)
  case (Text t)
  show ?case by simp
next
  case (Comment t)
  show ?case by simp
next
  case (Element h n a c)
  show ?case
  proof (cases "n = js ''h1'' \<and> m (Element h n a c)")
    case True
    then have n: "n = js ''h1''" and mm: "m (Element h (js ''h1'') a c)" by auto
    show ?thesis unfolding n using mm by simp
  next
    case False
    have "concat (map (removeTitleH1 m) c) = c \<longleftrightarrow> (\<forall>x\<in>set c. removeTitleH1 m x = [x])"
      using concat_same [of c "removeTitleH1 m"] concat_singletons [of c "removeTitleH1 m"]
        length_removeTitleH1 by blast
    also have "\<dots> \<longleftrightarrow> (\<forall>x\<in>set c. \<not> containsTitleH1 m x)"
      using Element.IH by blast
    also have "\<dots> \<longleftrightarrow> \<not> list_ex (containsTitleH1 m) c"
      by (simp add: list_ex_iff)
    finally have eq: "concat (map (removeTitleH1 m) c) = c \<longleftrightarrow> \<not> list_ex (containsTitleH1 m) c" .
    have r: "removeTitleH1 m (Element h n a c) = [Element h n a (concat (map (removeTitleH1 m) c))]"
      using False by auto
    have k: "containsTitleH1 m (Element h n a c) = list_ex (containsTitleH1 m) c"
      using False by auto
    show ?thesis unfolding r k using eq by simp
  qed
qed

section \<open>The lines of the regex fallback\<close>

lemma fallbackLine_emits:
  "\<exists>new. out (fallbackLine st l) = out st @ new
     \<and> (\<forall>x\<in>set new. (\<exists>t. x = pLine t) \<or> x = ulOpen \<or> (\<exists>g. x = listItem g) \<or> x = js ''</ul>''
                     \<or> (x = trim l \<and> trim l \<noteq> [] \<and> test keepRx (trim l)))
     \<and> (trim l \<noteq> [] \<and> \<not> test keepRx (trim l)
          \<longrightarrow> (\<exists>x\<in>set new. wrappedLine x)
              \<and> (\<forall>x\<in>set new. (\<exists>t. x = pLine t) \<or> x = ulOpen \<or> (\<exists>g. x = listItem g) \<or> x = js ''</ul>''))"
proof -
  obtain c where c: "out (closeList st) = out st @ c" "\<forall>x\<in>set c. x = js ''</ul>''"
    by (cases "inList' st") (auto simp: closeList_def)
  consider (blank) "trim l = []"
    | (kept) "trim l \<noteq> []" "test keepRx (trim l)"
    | (bullet) g where "trim l \<noteq> []" "\<not> test keepRx (trim l)" "exec bulletRx (trim l) = Some g"
    | (para) "trim l \<noteq> []" "\<not> test keepRx (trim l)" "exec bulletRx (trim l) = None"
    by (cases "exec bulletRx (trim l)") auto
  then show ?thesis
  proof cases
    case blank
    then show ?thesis using c by (simp add: fallbackLine_def)
  next
    case kept
    show ?thesis
    proof (cases "test headOpenRx (trim l) \<or> test headCloseRx (trim l)")
      case True
      with kept have "out (fallbackLine st l) = out st @ (c @ [trim l])"
        using c(1) by (simp add: fallbackLine_def Let_def)
      moreover have "\<forall>x\<in>set (c @ [trim l]). x = js ''</ul>'' \<or> x = trim l" using c(2) by auto
      ultimately show ?thesis using kept by blast
    next
      case False
      with kept have "out (fallbackLine st l) = out st @ [trim l]"
        by (simp add: fallbackLine_def Let_def)
      then show ?thesis using kept by auto
    qed
  next
    case bullet
    let ?new = "(if \<not> inList' st then [ulOpen] else []) @ [listItem (trim (group1 g))]"
    have "out (fallbackLine st l) = out st @ ?new"
      using bullet by (simp add: fallbackLine_def Let_def)
    moreover have "\<forall>x\<in>set ?new. x = ulOpen \<or> (\<exists>g. x = listItem g)" by auto
    moreover have "\<exists>x\<in>set ?new. wrappedLine x" using wrapped_listItem by auto
    ultimately show ?thesis by blast
  next
    case para
    let ?ps = "if length (sentences (trim l)) \<le> 1 then [pLine (trim l)]
               else map pLine (paragraphChunks (sentences (trim l)))"
    have o: "out (fallbackLine st l) = out st @ (c @ ?ps)"
      using para c(1) by (simp add: fallbackLine_def Let_def)
    have "paragraphChunks (sentences (trim l)) \<noteq> []"
      using para(1) by (intro paragraphs_nonempty) (simp_all add: trim_idem)
    then have ne: "?ps \<noteq> []" by simp
    have all: "\<forall>x\<in>set ?ps. \<exists>t. x = pLine t" by auto
    have "\<exists>x\<in>set (c @ ?ps). wrappedLine x"
    proof -
      from ne obtain x where x: "x \<in> set ?ps" by (cases ?ps) auto
      from x all obtain t where "x = pLine t" by blast
      then have w: "wrappedLine x" by (simp only: wrapped_pLine)
      have "x \<in> set (c @ ?ps)" unfolding set_append using x by (rule UnI2)
      with w show ?thesis by (rule rev_bexI [rotated])
    qed
    moreover have "\<forall>x\<in>set (c @ ?ps). (\<exists>t. x = pLine t) \<or> x = js ''</ul>''"
      using c(2) all by auto
    ultimately show ?thesis using o by blast
  qed
qed

lemma fallbackOut_provenance:
  "\<forall>x\<in>set (fallbackOut raw). (\<exists>t. x = pLine t) \<or> x = ulOpen \<or> (\<exists>g. x = listItem g)
       \<or> x = js ''</ul>'' \<or> x \<in> set (keptLines raw)"
proof -
  let ?L = "split (Str [CHR 0x0A]) (prepared raw)"
  let ?Q = "\<lambda>x. (\<exists>t. x = pLine t) \<or> x = ulOpen \<or> (\<exists>g. x = listItem g)
       \<or> x = js ''</ul>'' \<or> x \<in> set (keptLines raw)"
  have step: "\<forall>x\<in>set (out (fallbackLine st l)). ?Q x"
    if "\<forall>x\<in>set (out st). ?Q x" and "l \<in> set ?L" for st l
  proof -
    obtain new where new: "out (fallbackLine st l) = out st @ new"
      "\<forall>x\<in>set new. (\<exists>t. x = pLine t) \<or> x = ulOpen \<or> (\<exists>g. x = listItem g) \<or> x = js ''</ul>''
                     \<or> (x = trim l \<and> trim l \<noteq> [] \<and> test keepRx (trim l))"
      using fallbackLine_emits [of st l] by blast
    have "trim l \<in> set (keptLines raw)" if "trim l \<noteq> []" "test keepRx (trim l)"
      using that \<open>l \<in> set ?L\<close> by (simp add: keptLines_def)
    with new(2) have "\<forall>x\<in>set new. ?Q x" by blast
    with that(1) show ?thesis unfolding new(1) by auto
  qed
  have "\<forall>x\<in>set (out st). ?Q x \<Longrightarrow> set ls \<subseteq> set ?L
          \<Longrightarrow> \<forall>x\<in>set (out (foldl fallbackLine st ls)). ?Q x" for st ls
  proof (induction ls arbitrary: st)
    case Nil
    then show ?case by simp
  next
    case (Cons l ls)
    have "\<forall>x\<in>set (out (fallbackLine st l)). ?Q x"
      using step [of st l] Cons.prems by simp
    from Cons.IH [OF this] Cons.prems(2) show ?case by simp
  qed
  from this [of "\<lparr>out = [], inList' = False\<rparr>" ?L]
  have "\<forall>x\<in>set (out (foldl fallbackLine \<lparr>out = [], inList' = False\<rparr> ?L)). ?Q x"
    by simp
  then have "\<forall>x\<in>set (out (closeList (foldl fallbackLine \<lparr>out = [], inList' = False\<rparr> ?L))). ?Q x"
    by (cases "inList' (foldl fallbackLine \<lparr>out = [], inList' = False\<rparr> ?L)")
       (auto simp: closeList_def)
  then show ?thesis by (simp only: fallbackOut_def Let_def)
qed

section \<open>An input for the regex fallback\<close>

lemma mixed_lines: "split (Str [CHR 0x0A]) (prepared mixedRaw) = [[], js ''<h1>T</h1>'', [], js ''- a'', js ''x y'']"
  by (simp add: mixedRaw_def fallback_eval rx_eval cls_eval str_eval)

lemma mixed_kept: "keptLines mixedRaw = [js ''<h1>T</h1>'']"
  unfolding keptLines_def mixed_lines
  by (simp add: keepRx_def hN_def rx_eval cls_eval str_eval)

lemma mixed_out: "fallbackOut mixedRaw = [js ''<h1>T</h1>'', ulOpen, listItem (js ''a''), js ''</ul>'', pLine (js ''x y'')]"
  unfolding fallbackOut_def mixed_lines
  by (simp add: fallbackLine_def closeList_def keepRx_def headOpenRx_def headCloseRx_def hN_def bulletRx_def
        sentences_def sentenceRx_def paragraphChunks_def rx_eval cls_eval str_eval Let_def)

section \<open>Wrapping of the text\<close>




section \<open>Styles\<close>

lemma starts:
  "startsWith h2Open (heading2 s)" "startsWith h3Open (heading3 s)" "startsWith pOpen (pLine t)"
  "startsWith (js ''<li>'') (listItem g)"
  by (simp_all add: startsWith_def heading2_def heading3_def pLine_def listItem_def)

text \<open>
  C8, as the code has it: the \<^verbatim>\<open><h2>\<close>, \<^verbatim>\<open><h3>\<close> and \<^verbatim>\<open><p>\<close> lines of the plain-text path
  open with the tag that carries the fixed style; every line of the regex fallback is a
  paragraph line, which opens with the styled \<^verbatim>\<open><p>\<close> tag, the styled \<^verbatim>\<open><ul>\<close> tag, a list
  item, the closing of a list, or a line of the prepared input that starts with a
  recognised tag; in the tree of the DOM pass every \<^verbatim>\<open>h2\<close>, \<^verbatim>\<open>h3\<close>, \<^verbatim>\<open>p\<close> and \<^verbatim>\<open>ul\<close> element has
  its fixed style. A list item is \<^verbatim>\<open><li>\<close> without attributes in both textual paths, and
  the plain-text path opens its list with \<^verbatim>\<open><ul>\<close> without attributes.
\<close>

theorem styles_fixed:
  "(\<forall>x\<in>set (plainResult raw).
       startsWith h2Open x \<or> startsWith h3Open x \<or> startsWith pOpen x
       \<or> startsWith (js ''<li>'') x \<or> x = js ''<ul>'' \<or> x = js ''</ul>'')
   \<and> (\<forall>x\<in>set (fallbackOut raw).
       (\<exists>t. x = pLine t) \<or> x = ulOpen \<or> (\<exists>g. x = listItem g) \<or> x = js ''</ul>''
       \<or> x \<in> set (keptLines raw))
   \<and> (\<forall>t. startsWith pOpen (pLine t))
   \<and> (\<forall>n\<in>set (domNormalize e t body). styled n)"
proof -
  let ?P = "\<lambda>x. startsWith h2Open x \<or> startsWith h3Open x \<or> startsWith pOpen x
       \<or> startsWith (js ''<li>'') x \<or> x = js ''<ul>'' \<or> x = js ''</ul>''"
  have "\<forall>x\<in>set (plainRun plainInit (plainLines raw)). ?P x"
  proof (rule plainRun_all [where P = ?P])
    show "?P (heading2 (escapeHtml t))" for t using starts(1) by blast
    show "?P (heading3 (escapeHtml t))" for t using starts(2) by blast
    show "?P (pLine t)" for t using starts(3) by blast
    show "?P (listItem g)" for g using starts(4) by blast
    show "?P (js ''<ul>'')" by blast
    show "?P (js ''</ul>'')" by blast
  qed
  then have 1: "\<forall>x\<in>set (plainResult raw). ?P x"
    by (simp only: plainResult_def)
  note 2 = fallbackOut_provenance [of raw]
  have 3: "\<forall>t. startsWith pOpen (pLine t)" using starts(3) by blast
  from 1 2 3 domNormalize_styled [of e t body] show ?thesis by (intro conjI)
qed

theorem styles_fixed_witness:
  "styled (newP [Text (js ''loose text'')])
   \<and> plainResult (js ''A\<newline>- b'') = [heading2 (js ''A''), js ''<ul>'', listItem (js ''b''), js ''</ul>'']
   \<and> startsWith h2Open (heading2 (js ''A''))
   \<and> fallbackOut mixedRaw
       = [js ''<h1>T</h1>'', ulOpen, listItem (js ''a''), js ''</ul>'', pLine (js ''x y'')]
   \<and> keptLines mixedRaw = [js ''<h1>T</h1>'']
   \<and> startsWith pOpen (pLine (js ''x y''))"
proof -
  have 1: "plainResult (js ''A\<newline>- b'') = [heading2 (js ''A''), js ''<ul>'', listItem (js ''b''), js ''</ul>'']"
    by (simp add: plain_eval escapeHtml_def rx_eval cls_eval str_eval)
  have 2: "domNormalize noDom None [Text (js ''loose text'')] = [newP [Text (js ''loose text'')]]"
    by (simp add: domNormalize_def removeTitles_def candidateSet_def titleCandidates_def truthy_def wsRunRx_def
          sentences_def sentenceRx_def paragraphChunks_def rx_eval cls_eval str_eval)
  have 3: "\<not> startsWith h3Open (heading2 (js ''A''))" "\<not> startsWith pOpen (heading2 (js ''A''))"
    "\<not> startsWith (js ''<li>'') (heading2 (js ''A''))" "heading2 (js ''A'') \<noteq> js ''<ul>''"
    "heading2 (js ''A'') \<noteq> js ''</ul>''"
    by (simp_all add: startsWith_def heading2_def h2Open_def h3Open_def pOpen_def js_def)
  note S = styles_fixed [of "js ''A\<newline>- b''" noDom None "[Text (js ''loose text'')]"]
  note S' = styles_fixed [of mixedRaw noDom None "[]"]
  from S have a: "styled (newP [Text (js ''loose text'')])" unfolding 2 by simp
  from S have b: "startsWith h2Open (heading2 (js ''A''))" unfolding 1 using 3 by simp
  from S' have c: "startsWith pOpen (pLine (js ''x y''))" by blast
  from a 1 b mixed_out mixed_kept c show ?thesis by (intro conjI)
qed

theorem list_item_unstyled:
  "plainResult (js ''A\<newline>- b'') = [heading2 (js ''A''), js ''<ul>'', listItem (js ''b''), js ''</ul>'']
   \<and> listItem (js ''b'') = js ''<li>b</li>''
   \<and> \<not> includes_str (js ''style='') (js ''<li>b</li>'')
   \<and> \<not> includes_str (js ''style='') (js ''<ul>'')"
proof -
  have 1: "plainResult (js ''A\<newline>- b'') = [heading2 (js ''A''), js ''<ul>'', listItem (js ''b''), js ''</ul>'']"
    by (simp add: plain_eval escapeHtml_def rx_eval cls_eval str_eval)
  have 2: "listItem (js ''b'') = js ''<li>b</li>''"
    by (simp add: listItem_def escapeHtml_def rx_eval cls_eval)
  have 3: "\<not> includes_str (js ''style='') (js ''<li>b</li>'')" "\<not> includes_str (js ''style='') (js ''<ul>'')"
    by (simp_all add: js_def)
  from 1 2 3 show ?thesis by simp
qed

section \<open>The duplicate title\<close>

lemma removeLeadingTitles_skip:
  "\<forall>n\<in>set pre. \<not> isElement n \<Longrightarrow> isElement el \<Longrightarrow> m el
     \<Longrightarrow> removeLeadingTitles m (pre @ el # rest) = removeLeadingTitles m (pre @ rest)"
  by (induction pre) simp_all

lemma removeLeadingTitles_run:
  "\<forall>n\<in>set pre. isElement n \<longrightarrow> m n
     \<Longrightarrow> rest = [] \<or> (\<exists>first more. rest = first # more \<and> isElement first \<and> \<not> m first)
     \<Longrightarrow> removeLeadingTitles m (pre @ rest) = filter (\<lambda>n. \<not> isElement n) pre @ rest"
  by (induction pre) auto

lemma truthy_Some: "truthy (Some t) \<longleftrightarrow> t \<noteq> []"
  by (simp add: truthy_def)

lemma candidateSet_Some:
  "t \<noteq> [] \<Longrightarrow> candidateSet e (Some t) = [norm e t, norm e (replaceFirst chapterPrefixRx [] t)]"
  by (simp add: candidateSet_def titleCandidates_def)

lemmas norm_eval = norm_def wsRunRx_def chapterPrefixRx_def hostWith_def

text \<open>
  C6: in the HTML-structured path, when the first element of the parsed body has a
  text that is the title, or the title without a leading \<^verbatim>\<open>Chapter <digits>:\<close> prefix, up
  to the case of the letters (as the host's \<^verbatim>\<open>toLowerCase\<close> has it), white space at the
  ends, and every run of white space counting as one space, the element is removed:
  the output is the one the rest of the body gives.
\<close>

theorem title_element_removed:
  assumes "raw \<noteq> []" and "hasHtmlHeadings raw"
    and "parseFromString e raw = Inr (pre @ el # rest)"
    and "\<forall>n\<in>set pre. \<not> isElement n" and "isElement el" and "title \<noteq> []"
    and "toLowerCase e (trim (collapse (textContent el))) = toLowerCase e (trim (collapse title))
         \<or> (\<exists>core. chapterPrefixed title core
               \<and> toLowerCase e (trim (collapse (textContent el))) = toLowerCase e (trim (collapse core)))"
  shows "formatChapterContent e (Some raw) (Some title)
           = Inr (innerHTML e (domNormalize e (Some title) (pre @ rest)))"
proof -
  have "norm e (textContent el) = norm e title
        \<or> norm e (textContent el) = norm e (replaceFirst chapterPrefixRx [] title)"
    using assms(7) replaceFirst_chapterPrefix [of title] unfolding norm_collapse by metis
  then have m: "isTitle e (candidateSet e (Some title)) el"
    using assms(6) by (auto simp: isTitle_def candidateSet_Some)
  have "removeLeadingTitles (isTitle e (candidateSet e (Some title))) (pre @ el # rest)
          = removeLeadingTitles (isTitle e (candidateSet e (Some title))) (pre @ rest)"
    using assms(4,5) m by (rule removeLeadingTitles_skip)
  then have "domNormalize e (Some title) (pre @ el # rest) = domNormalize e (Some title) (pre @ rest)"
    by (simp only: domNormalize_def removeTitles_def Let_def)
  then show ?thesis
    using assms(1,2,3) by (simp add: formatChapterContent_def htmlStructuredPath_def domPath_def)
qed

theorem title_element_removed_witness:
  "formatChapterContent (hostWith [(chapterRaw, chapterBody)]) (Some chapterRaw)
       (Some (js ''Chapter 1: Foo''))
     = Inr (js ''<p style=\"margin:8px 0;line-height:1.7;\"><p style=\"margin:8px 0;line-height:1.7;\">body</p></p>'')
   \<and> formatChapterContent (hostWith [(chapterRaw2, chapterBody2)]) (Some chapterRaw2)
       (Some (js ''Chapter 12 :  foo Bar''))
     = Inr (js ''<p style=\"margin:8px 0;line-height:1.7;\"><p style=\"margin:8px 0;line-height:1.7;\">body</p></p>'')"
proof -
  let ?H = "hostWith [(chapterRaw, chapterBody)]"
  let ?G = "hostWith [(chapterRaw2, chapterBody2)]"
  let ?el = "Element True (js ''h2'') [] [Text (js ''Chapter 1: Foo'')]"
  let ?el2 = "Element True (js ''h3'') [] [Text (js ''  FOO   bar '')]"
  let ?rest = "[Element True (js ''p'') [] [Text (js ''body'')]]"
  let ?t2 = "js ''Chapter 12 :  foo Bar''"
  have 1: "chapterRaw \<noteq> []" "chapterRaw2 \<noteq> []" by (simp_all add: chapterRaw_def chapterRaw2_def js_def)
  have 2: "hasHtmlHeadings chapterRaw" "hasHtmlHeadings chapterRaw2"
    by (simp_all add: chapterRaw_def chapterRaw2_def hasHtmlHeadings_def hasHtmlHeadingsRx_def rx_eval cls_eval)
  have 3: "parseFromString ?H chapterRaw = Inr ([] @ ?el # ?rest)"
    by (simp add: hostWith_def chapterBody_def)
  have q3: "parseFromString ?G chapterRaw2 = Inr ([] @ ?el2 # ?rest)"
    by (simp add: hostWith_def chapterBody2_def)
  have 4: "\<forall>n\<in>set ([]::node list). \<not> isElement n" by simp
  have 5: "isElement ?el" "isElement ?el2" by simp_all
  have 6: "js ''Chapter 1: Foo'' \<noteq> []" "?t2 \<noteq> []" by (simp_all add: js_def)
  have 7: "toLowerCase ?H (trim (collapse (textContent ?el))) = toLowerCase ?H (trim (collapse (js ''Chapter 1: Foo'')))
         \<or> (\<exists>core. chapterPrefixed (js ''Chapter 1: Foo'') core
               \<and> toLowerCase ?H (trim (collapse (textContent ?el))) = toLowerCase ?H (trim (collapse core)))"
    by simp
  have p: "chapterPrefixed ?t2 (js ''foo Bar'')"
    unfolding chapterPrefixed_def
    apply (rule exI [where x = "js ''Chapter''"])
    apply (rule exI [where x = "js '' ''"])
    apply (rule exI [where x = "js ''12''"])
    apply (rule exI [where x = "js '' ''"])
    apply (rule exI [where x = "js ''  ''"])
    apply (simp add: js_def cls_eval)
    done
  have l: "toLowerCase ?G (trim (collapse (js ''  FOO   bar ''))) = js ''foo bar''"
    "toLowerCase ?G (trim (collapse (js ''foo Bar''))) = js ''foo bar''"
    by (simp_all add: hostWith_def js_def cls_eval str_eval)
  have q7: "toLowerCase ?G (trim (collapse (textContent ?el2))) = toLowerCase ?G (trim (collapse ?t2))
         \<or> (\<exists>core. chapterPrefixed ?t2 core
               \<and> toLowerCase ?G (trim (collapse (textContent ?el2))) = toLowerCase ?G (trim (collapse core)))"
    using p l by auto
  have n1: "norm ?H (js ''Chapter 1: Foo'') = js ''chapter 1: foo''"
    "norm ?G ?t2 = js ''chapter 12 : foo bar''"
    by (simp_all add: norm_eval rx_eval cls_eval str_eval)
  have n2: "norm ?H (replaceFirst chapterPrefixRx [] (js ''Chapter 1: Foo'')) = js ''foo''"
    "norm ?G (replaceFirst chapterPrefixRx [] ?t2) = js ''foo bar''"
    by (simp_all add: norm_eval rx_eval cls_eval str_eval)
  have n3: "norm ?H (js ''body'') = js ''body''" "norm ?G (js ''body'') = js ''body''"
    by (simp_all add: norm_eval rx_eval cls_eval str_eval)
  have c: "candidateSet ?H (Some (js ''Chapter 1: Foo'')) = [js ''chapter 1: foo'', js ''foo'']"
    using 6 by (simp add: candidateSet_Some n1 n2)
  have c': "candidateSet ?G (Some ?t2) = [js ''chapter 12 : foo bar'', js ''foo bar'']"
    using 6 by (simp add: candidateSet_Some n1 n2)
  have t: "\<not> isTitle ?H [js ''chapter 1: foo'', js ''foo''] (Element True (js ''p'') [] [Text (js ''body'')])"
    by (simp add: isTitle_def n3) (simp add: js_def)
  have t': "\<not> isTitle ?G [js ''chapter 12 : foo bar'', js ''foo bar''] (Element True (js ''p'') [] [Text (js ''body'')])"
    by (simp add: isTitle_def n3) (simp add: js_def)
  have s: "sentences (js ''body'') = [js ''body'']"
    by (simp add: sentences_def sentenceRx_def rx_eval cls_eval)
  have w: "trim (replaceAll wsRunRx [Txt '' ''] (js ''body'')) = js ''body''"
    by (simp add: wsRunRx_def rx_eval cls_eval str_eval)
  have k: "paragraphChunks [js ''body''] = [js ''body'']"
    by (simp add: paragraphChunks_def str_eval cls_eval js_def)
  have b: "js ''body'' \<noteq> []" by (simp add: js_def)
  have d: "domNormalize ?H (Some (js ''Chapter 1: Foo'')) ([] @ ?rest)
             = [Element True (js ''p'') [(js ''style'', pStyleDom)] [newP [Text (js ''body'')]]]"
    using t b
    by (simp add: domNormalize_def removeTitles_def c truthy_Some 6 blockTags_def w s k Let_def tags_distinct)
       (simp add: js_def asciiUpper_def)
  have d': "domNormalize ?G (Some ?t2) ([] @ ?rest)
             = [Element True (js ''p'') [(js ''style'', pStyleDom)] [newP [Text (js ''body'')]]]"
    using t' b
    by (simp add: domNormalize_def removeTitles_def c' truthy_Some 6 blockTags_def w s k Let_def tags_distinct)
       (simp add: js_def asciiUpper_def)
  have i: "innerHTML e' [Element True (js ''p'') [(js ''style'', pStyleDom)] [newP [Text (js ''body'')]]]
             = js ''<p style=\"margin:8px 0;line-height:1.7;\"><p style=\"margin:8px 0;line-height:1.7;\">body</p></p>''"
    if "e' = hostWith docs" for e' docs
    unfolding that
    by (simp add: hostWith_def newP_def pStyleDom_def voidTags_def escapeText_def escapeAttr_def js_def)
  show ?thesis
    using title_element_removed [OF 1(1) 2(1) 3 4 5(1) 6(1) 7]
      title_element_removed [OF 1(2) 2(2) q3 4 5(2) 6(2) q7]
    unfolding d d' i [OF refl] by (rule conjI)
qed

text \<open>
  C2, as the code has it: the loop of the duplicate-title pass removes the whole
  leading run of elements whose text is a title candidate, one in each turn and each
  time looking only at the element that is then the first of the body; it stops at the
  first element that is not a title. In the pass on the assembled HTML (\<open>stripDup\<close>) that
  is all: the nodes between the removed elements, the first element that is not a
  title and what follows it are kept. In the DOM pass the loop is followed by the
  removal of every \<^verbatim>\<open>h1\<close> whose text is a title candidate, wherever it is in what the loop
  left; a node comes out of that removal as it was exactly when it holds no such \<^verbatim>\<open>h1\<close>.
\<close>

theorem leading_titles_removed:
  assumes "truthy t"
    and "\<forall>n\<in>set pre. isElement n \<longrightarrow> isTitle e (candidateSet e t) n"
    and "rest = [] \<or> (\<exists>first more. rest = first # more \<and> isElement first
                           \<and> \<not> isTitle e (candidateSet e t) first)"
  shows "(parseFromString e html = Inr (pre @ rest)
            \<longrightarrow> stripDup e html t = innerHTML e (filter (\<lambda>n. \<not> isElement n) pre @ rest))
       \<and> removeTitles e t (pre @ rest)
           = concat (map (removeTitleH1 (isTitle e (candidateSet e t)))
                         (filter (\<lambda>n. \<not> isElement n) pre @ rest))
       \<and> (\<forall>n. removeTitleH1 (isTitle e (candidateSet e t)) n = [n]
                 \<longleftrightarrow> \<not> containsTitleH1 (isTitle e (candidateSet e t)) n)
       \<and> (\<forall>h a c. isTitle e (candidateSet e t) (Element h (js ''h1'') a c)
                 \<longrightarrow> removeTitleH1 (isTitle e (candidateSet e t)) (Element h (js ''h1'') a c) = [])"
proof -
  note run = removeLeadingTitles_run [OF assms(2,3)]
  have 1: "parseFromString e html = Inr (pre @ rest)
            \<longrightarrow> stripDup e html t = innerHTML e (filter (\<lambda>n. \<not> isElement n) pre @ rest)"
    using assms(1) run by (simp add: stripDup_def)
  have 2: "removeTitles e t (pre @ rest)
           = concat (map (removeTitleH1 (isTitle e (candidateSet e t)))
                         (filter (\<lambda>n. \<not> isElement n) pre @ rest))"
    using assms(1) by (simp only: removeTitles_def Let_def run if_True)
  have 3: "\<forall>n. removeTitleH1 (isTitle e (candidateSet e t)) n = [n]
                 \<longleftrightarrow> \<not> containsTitleH1 (isTitle e (candidateSet e t)) n"
    by (simp add: removeTitleH1_same)
  have 4: "\<forall>h a c. isTitle e (candidateSet e t) (Element h (js ''h1'') a c)
                 \<longrightarrow> removeTitleH1 (isTitle e (candidateSet e t)) (Element h (js ''h1'') a c) = []"
    by simp
  from 1 2 3 4 show ?thesis by (intro conjI)
qed

lemma foo_norm:
  "norm (hostWith docs) (js ''Foo'') = js ''foo''"
  "norm (hostWith docs) (replaceFirst chapterPrefixRx [] (js ''Foo'')) = js ''foo''"
  "norm (hostWith docs) (js ''bar.'') = js ''bar.''"
  "norm (hostWith docs) (js ''x'') = js ''x''"
  by (simp_all add: norm_eval rx_eval cls_eval str_eval)

lemma foo_candidates: "candidateSet (hostWith docs) (Some (js ''Foo'')) = [js ''foo'', js ''foo'']"
proof -
  have ne: "js ''Foo'' \<noteq> []" by (simp add: js_def)
  show ?thesis unfolding candidateSet_Some [OF ne] foo_norm by (rule refl)
qed

lemma foo_isTitle:
  "isTitle (hostWith docs) [js ''foo'', js ''foo''] (Element h n a [Text (js ''Foo'')])"
  "\<not> isTitle (hostWith docs) [js ''foo'', js ''foo''] (Element h n a [Text (js ''bar.'')])"
  "\<not> isTitle (hostWith docs) [js ''foo'', js ''foo''] (Element h n a [Text (js ''x'')])"
  by (simp_all add: isTitle_def foo_norm) (simp_all add: js_def)

theorem leading_titles_removed_witness:
  "stripDup (hostWith [(fooBuilt, fooBody)]) fooBuilt (Some (js ''Foo''))
     = [0xA, 0xA] @ pLine (js ''bar.'')
   \<and> removeTitles noDom (Some (js ''Foo'')) lateTitleBody
     = [Element True (js ''p'') [] [Text (js ''x'')], Element True (js ''div'') [] []]
   \<and> removeTitleH1 (isTitle noDom (candidateSet noDom (Some (js ''Foo''))))
        (Element True (js ''p'') [] [Text (js ''x'')])
     = [Element True (js ''p'') [] [Text (js ''x'')]]"
proof -
  let ?H = "hostWith [(fooBuilt, fooBody)]"
  let ?pre = "take 4 fooBody"
  let ?rest = "drop 4 fooBody"
  let ?m = "isTitle noDom (candidateSet noDom (Some (js ''Foo'')))"
  have 1: "truthy (Some (js ''Foo''))" by (simp add: truthy_def js_def)
  have 2: "parseFromString ?H fooBuilt = Inr (?pre @ ?rest)" by (simp add: hostWith_def)
  have 3: "\<forall>n\<in>set ?pre. isElement n \<longrightarrow> isTitle ?H (candidateSet ?H (Some (js ''Foo''))) n"
    by (simp add: fooBody_def foo_candidates foo_isTitle)
  have 4: "?rest = [] \<or> (\<exists>first more. ?rest = first # more \<and> isElement first
                           \<and> \<not> isTitle ?H (candidateSet ?H (Some (js ''Foo''))) first)"
    by (simp add: fooBody_def foo_candidates foo_isTitle)
  have 5: "innerHTML ?H (filter (\<lambda>n. \<not> isElement n) ?pre @ ?rest) = [0xA, 0xA] @ pLine (js ''bar.'')"
    by (simp add: fooBody_def hostWith_def voidTags_def escapeText_def escapeAttr_def pLine_def
          pOpen_def escapeHtml_def rx_eval cls_eval)
  have 6: "\<forall>n\<in>set ([]::node list). isElement n \<longrightarrow> ?m n" by simp
  have 7: "lateTitleBody = [] \<or> (\<exists>first more. lateTitleBody = first # more \<and> isElement first \<and> \<not> ?m first)"
    by (simp add: lateTitleBody_def noDom_def foo_candidates foo_isTitle)
  have tg: "js ''p'' \<noteq> js ''h1''" "js ''div'' \<noteq> js ''h1''" by (simp_all add: js_def)
  have 8: "concat (map (removeTitleH1 ?m) (filter (\<lambda>n. \<not> isElement n) [] @ lateTitleBody))
             = [Element True (js ''p'') [] [Text (js ''x'')], Element True (js ''div'') [] []]"
    by (simp add: lateTitleBody_def noDom_def foo_candidates foo_isTitle tg)
  have 9: "\<not> containsTitleH1 ?m (Element True (js ''p'') [] [Text (js ''x'')])"
    by (simp add: tg)
  note A = leading_titles_removed [OF 1 3 4, of fooBuilt]
  note B = leading_titles_removed [OF 1 6 7, of "[]"]
  from A 2 have a: "stripDup ?H fooBuilt (Some (js ''Foo'')) = [0xA, 0xA] @ pLine (js ''bar.'')"
    unfolding 5 by blast
  from B have b: "removeTitles noDom (Some (js ''Foo'')) lateTitleBody
     = [Element True (js ''p'') [] [Text (js ''x'')], Element True (js ''div'') [] []]"
    unfolding 8 by simp
  from B 9 have c: "removeTitleH1 ?m (Element True (js ''p'') [] [Text (js ''x'')])
     = [Element True (js ''p'') [] [Text (js ''x'')]]"
    by blast
  from a b c show ?thesis by (intro conjI)
qed

theorem two_titles_removed:
  "plainBuilt (js ''Foo\<newline>Foo\<newline>bar.'') = fooBuilt
   \<and> removeLeadingTitles
        (isTitle (hostWith [(fooBuilt, fooBody)])
           (candidateSet (hostWith [(fooBuilt, fooBody)]) (Some (js ''Foo'')))) fooBody
       = [Text [0xA], Text [0xA],
          Element True (js ''p'') [(js ''style'', js ''margin: 8px 0; line-height: 1.7;'')] [Text (js ''bar.'')]]
   \<and> length (filter isElement fooBody)
       - length (filter isElement
           (removeLeadingTitles
              (isTitle (hostWith [(fooBuilt, fooBody)])
                 (candidateSet (hostWith [(fooBuilt, fooBody)]) (Some (js ''Foo'')))) fooBody)) = 2
   \<and> formatChapterContent (hostWith [(fooBuilt, fooBody)]) (Some (js ''Foo\<newline>Foo\<newline>bar.''))
         (Some (js ''Foo''))
       = Inr ([0xA, 0xA] @ pLine (js ''bar.''))"
proof -
  let ?H = "hostWith [(fooBuilt, fooBody)]"
  have r: "plainResult (js ''Foo\<newline>Foo\<newline>bar.'')
             = [heading2 (js ''Foo''), heading3 (js ''Foo''), pLine (js ''bar.'')]"
    by (simp add: plain_eval pLine_def escapeHtml_def rx_eval cls_eval str_eval Let_def)
  have 1: "plainBuilt (js ''Foo\<newline>Foo\<newline>bar.'') = fooBuilt"
    unfolding plainBuilt_def r by (simp add: fooBuilt_def)
  have 2: "removeLeadingTitles (isTitle ?H (candidateSet ?H (Some (js ''Foo'')))) fooBody
       = [Text [0xA], Text [0xA],
          Element True (js ''p'') [(js ''style'', js ''margin: 8px 0; line-height: 1.7;'')] [Text (js ''bar.'')]]"
    by (simp add: fooBody_def foo_candidates foo_isTitle)
  have 3: "length (filter isElement fooBody) = 3" by (simp add: fooBody_def)
  have 4: "\<not> hasHtmlHeadings (js ''Foo\<newline>Foo\<newline>bar.'')"
    by (simp add: hasHtmlHeadings_def hasHtmlHeadingsRx_def rx_eval cls_eval)
  have 5: "innerHTML ?H [Text [0xA], Text [0xA],
          Element True (js ''p'') [(js ''style'', js ''margin: 8px 0; line-height: 1.7;'')] [Text (js ''bar.'')]]
       = [0xA, 0xA] @ pLine (js ''bar.'')"
    by (simp add: hostWith_def voidTags_def escapeText_def escapeAttr_def pLine_def
          pOpen_def escapeHtml_def rx_eval cls_eval)
  have 6: "js ''Foo\<newline>Foo\<newline>bar.'' \<noteq> []" by (simp add: js_def)
  have 7: "parseFromString ?H fooBuilt = Inr fooBody" by (simp add: hostWith_def)
  have 8: "formatChapterContent ?H (Some (js ''Foo\<newline>Foo\<newline>bar.'')) (Some (js ''Foo''))
       = Inr ([0xA, 0xA] @ pLine (js ''bar.''))"
    using 4 6 by (simp add: formatChapterContent_def plainPath_def 1 stripDup_def truthy_Some 7 2 5)
       (simp add: js_def)
  show ?thesis using 1 2 3 8 by simp
qed

end
